theory Spec2Isabelle
  imports Main "HOL-Library.Word"
begin

unbundle bit_operations_syntax

section \<open>Go runtime values used by the link endpoint\<close>

text \<open>
  The embedding covers \<^verbatim>\<open>wgengine/netstack/link_endpoint.go\<close>. A
  \<^verbatim>\<open>*stack.PacketBuffer\<close> is a pointer; the queue never looks inside the
  packet, so a packet is its address. Every run-time panic the Go code can raise is a
  value of \<open>go_panic\<close>, returned on the left of a sum.
\<close>

type_synonym byte = "8 word"
type_synonym addr = nat
type_synonym pkt = addr

datatype go_panic =
    CloseOfClosedChannel
  | SendOnClosedChannel
  | MakechanSizeOutOfRange
  | IndexOutOfRange
  | SliceBoundsOutOfRange

datatype tcpip_Error = ErrClosedForSend | ErrNoBufferSpace

subsection \<open>Reference counts of packet buffers\<close>

text \<open>
  Modelled from the spec: \<^verbatim>\<open>stack.PacketBuffer\<close> belongs to gVisor and is not
  under src/. The spec gives a packet buffer a reference count; \<^verbatim>\<open>IncRef\<close> takes a
  reference and \<^verbatim>\<open>DecRef\<close> releases one. The counts of all packets form the
  state \<open>refs\<close>.
\<close>

type_synonym refs = "pkt \<Rightarrow> int"

definition IncRef :: "refs \<Rightarrow> pkt \<Rightarrow> refs" where
  "IncRef h p = h(p := h p + 1)"

definition DecRef :: "refs \<Rightarrow> pkt \<Rightarrow> refs" where
  "DecRef h p = h(p := h p - 1)"

subsection \<open>Buffered channels\<close>

text \<open>
  A Go channel of packet pointers: the buffered elements in FIFO order, the capacity
  given to \<^verbatim>\<open>make\<close>, and whether \<^verbatim>\<open>close\<close> has been applied. The
  operations are the ones of the language: \<^verbatim>\<open>make\<close> panics on a negative
  size, \<^verbatim>\<open>close\<close> panics on a closed channel, a send panics on a closed
  channel, a receive from a closed and empty channel yields the zero value (nil) at once.
  The model is sequential: no other goroutine is parked on the channel while an
  operation runs.
\<close>

record chan =
  ch_buf :: "pkt list"
  ch_cap :: nat
  ch_closed :: bool

definition make_chan :: "int \<Rightarrow> go_panic + chan" where
  "make_chan n =
     (if n < 0 then Inl MakechanSizeOutOfRange
      else Inr \<lparr>ch_buf = [], ch_cap = nat n, ch_closed = False\<rparr>)"

definition close_chan :: "chan \<Rightarrow> go_panic + chan" where
  "close_chan ch =
     (if ch_closed ch then Inl CloseOfClosedChannel
      else Inr (ch\<lparr>ch_closed := True\<rparr>))"

text \<open>
  A send inside a \<^verbatim>\<open>select\<close> with a \<^verbatim>\<open>default\<close> branch:
  \<open>Inr (Some ch')\<close> when the value was buffered, \<open>Inr None\<close> when the send
  cannot proceed and the default branch runs.
\<close>

definition send_nb :: "chan \<Rightarrow> pkt \<Rightarrow> go_panic + chan option" where
  "send_nb ch p =
     (if ch_closed ch then Inl SendOnClosedChannel
      else if length (ch_buf ch) < ch_cap ch then Inr (Some (ch\<lparr>ch_buf := ch_buf ch @ [p]\<rparr>))
      else Inr None)"

text \<open>
  A receive that does not wait: \<open>None\<close> when the receive cannot proceed,
  \<open>Some (v, ch')\<close> when it can, where \<open>v\<close> is the received pointer
  (\<open>None\<close> is nil, the zero value a closed and empty channel delivers).
\<close>

definition recv_nb :: "chan \<Rightarrow> (pkt option \<times> chan) option" where
  "recv_nb ch =
     (case ch_buf ch of
        p # ps \<Rightarrow> Some (Some p, ch\<lparr>ch_buf := ps\<rparr>)
      | [] \<Rightarrow> if ch_closed ch then Some (None, ch) else None)"

section \<open>The outbound queue\<close>

record queue =
  c :: chan
  closed :: bool

definition queue_Close :: "queue \<Rightarrow> go_panic + queue" where
  "queue_Close qs =
     (if \<not> closed qs then
        (case close_chan (c qs) of
           Inl e \<Rightarrow> Inl e
         | Inr ch \<Rightarrow> Inr (qs\<lparr>c := ch, closed := True\<rparr>))
      else Inr (qs\<lparr>closed := True\<rparr>))"

definition queue_Read :: "queue \<Rightarrow> pkt option \<times> queue" where
  "queue_Read qs =
     (case recv_nb (c qs) of
        Some (v, ch) \<Rightarrow> (v, qs\<lparr>c := ch\<rparr>)
      | None \<Rightarrow> (None, qs))"

text \<open>
  \<^verbatim>\<open>ReadContext\<close> is a \<^verbatim>\<open>select\<close> over the channel receive and
  \<^verbatim>\<open>ctx.Done()\<close>, with no default branch. When no case can proceed the
  goroutine blocks (result \<open>None\<close>). When several can, Go chooses one by a uniform
  pseudo-random selection: \<open>pick\<close> is the number the runtime draws.
\<close>

datatype select_case = CaseRecv | CaseDone

definition ReadContext_ready :: "queue \<Rightarrow> bool \<Rightarrow> select_case list" where
  "ReadContext_ready qs ctx_done =
     (if recv_nb (c qs) = None then [] else [CaseRecv]) @ (if ctx_done then [CaseDone] else [])"

definition queue_ReadContext :: "queue \<Rightarrow> bool \<Rightarrow> nat \<Rightarrow> (pkt option \<times> queue) option" where
  "queue_ReadContext qs ctx_done pick =
     (let ready = ReadContext_ready qs ctx_done in
      if ready = [] then None
      else (case ready ! (pick mod length ready) of
              CaseRecv \<Rightarrow>
                (case recv_nb (c qs) of
                   Some (v, ch) \<Rightarrow> Some (v, qs\<lparr>c := ch\<rparr>)
                 | None \<Rightarrow> None)
            | CaseDone \<Rightarrow> Some (None, qs)))"

text \<open>
  \<^verbatim>\<open>Write\<close>: the right-hand side \<^verbatim>\<open>pkt.IncRef()\<close> of the send is
  evaluated on entering the \<^verbatim>\<open>select\<close>, before it is known whether the send
  proceeds; the default branch gives the reference back.
\<close>

definition queue_Write ::
  "queue \<Rightarrow> refs \<Rightarrow> pkt \<Rightarrow> go_panic + (tcpip_Error option \<times> queue \<times> refs)" where
  "queue_Write qs h pkt =
     (if closed qs then Inr (Some ErrClosedForSend, qs, h)
      else
        (let h1 = IncRef h pkt in
         case send_nb (c qs) pkt of
           Inl e \<Rightarrow> Inl e
         | Inr (Some ch) \<Rightarrow> Inr (None, qs\<lparr>c := ch\<rparr>, h1)
         | Inr None \<Rightarrow> Inr (Some ErrNoBufferSpace, qs, DecRef h1 pkt)))"

definition queue_Num :: "queue \<Rightarrow> nat" where
  "queue_Num qs = length (ch_buf (c qs))"

text \<open>
  The queue states the program reaches: the channel is closed exactly when the flag is
  set, and the buffer holds no more than the capacity.
\<close>

definition queue_wf :: "queue \<Rightarrow> bool" where
  "queue_wf qs = (ch_closed (c qs) = closed qs \<and> length (ch_buf (c qs)) \<le> ch_cap (c qs))"

section \<open>The link endpoint\<close>

datatype SupportedGSO = GSONotSupported | HostGSOSupported | GvisorGSOSupported

text \<open>
  Modelled from the spec: \<^verbatim>\<open>gro.GRO\<close> belongs to gVisor and is not under src/.
  The spec's batcher holds the segments enqueued since the last flush; \<^verbatim>\<open>Flush\<close>
  delivers all currently batched groups to the registered dispatcher in the order they
  were enqueued, then clears the batcher state. \<open>gro_delivered\<close> records what was
  handed to the dispatcher, oldest first.
\<close>

record GRO =
  Dispatcher :: "nat option"
  gro_pending :: "pkt list"
  gro_delivered :: "pkt list"

definition gro_Init :: "GRO" where
  "gro_Init = \<lparr>Dispatcher = None, gro_pending = [], gro_delivered = []\<rparr>"

definition gro_Flush :: "GRO \<Rightarrow> GRO" where
  "gro_Flush g = g\<lparr>gro_delivered := gro_delivered g @ gro_pending g, gro_pending := []\<rparr>"

record linkEndpoint =
  SupportedGSOKind :: SupportedGSO
  dispatcher :: "nat option"
  linkAddr :: string
  mtu :: "32 word"
  q :: queue
  gro :: GRO

definition newLinkEndpoint :: "int \<Rightarrow> 32 word \<Rightarrow> string \<Rightarrow> go_panic + linkEndpoint" where
  "newLinkEndpoint n m a =
     (case make_chan n of
        Inl e \<Rightarrow> Inl e
      | Inr ch \<Rightarrow>
          Inr \<lparr>SupportedGSOKind = GSONotSupported, dispatcher = None, linkAddr = a, mtu = m,
               q = \<lparr>c = ch, closed = False\<rparr>, gro = gro_Init\<rparr>)"

definition linkEndpoint_Read :: "linkEndpoint \<Rightarrow> pkt option \<times> linkEndpoint" where
  "linkEndpoint_Read l = (case queue_Read (q l) of (v, q') \<Rightarrow> (v, l\<lparr>q := q'\<rparr>))"

definition linkEndpoint_ReadContext ::
  "linkEndpoint \<Rightarrow> bool \<Rightarrow> nat \<Rightarrow> (pkt option \<times> linkEndpoint) option" where
  "linkEndpoint_ReadContext l ctx_done pick =
     (case queue_ReadContext (q l) ctx_done pick of
        None \<Rightarrow> None
      | Some (v, q') \<Rightarrow> Some (v, l\<lparr>q := q'\<rparr>))"

definition linkEndpoint_NumQueued :: "linkEndpoint \<Rightarrow> nat" where
  "linkEndpoint_NumQueued l = queue_Num (q l)"

text \<open>
  \<^verbatim>\<open>Drain\<close>: the loop \<^verbatim>\<open>for pkt := l.Read(); pkt != nil; pkt = l.Read()\<close>
  with the counter \<open>n\<close> (the source's \<^verbatim>\<open>c\<close>) carried along. Each round
  removes one element of the channel buffer, which is the measure of termination.
\<close>

function Drain_loop :: "linkEndpoint \<Rightarrow> refs \<Rightarrow> nat \<Rightarrow> nat \<times> linkEndpoint \<times> refs" where
  "Drain_loop l h n =
     (case fst (linkEndpoint_Read l) of
        None \<Rightarrow> (n, snd (linkEndpoint_Read l), h)
      | Some pkt \<Rightarrow> Drain_loop (snd (linkEndpoint_Read l)) (DecRef h pkt) (n + 1))"
  by pat_completeness auto
termination
proof (relation "measure (\<lambda>(l, h, n). length (ch_buf (c (q l))))")
  show "wf (measure (\<lambda>(l, h, n). length (ch_buf (c (q l)))))"
    by simp
next
  fix l :: linkEndpoint and h :: refs and n :: nat and x2 :: pkt
  assume "fst (linkEndpoint_Read l) = Some x2"
  then show "((snd (linkEndpoint_Read l), DecRef h x2, n + 1), l, h, n)
      \<in> measure (\<lambda>(l, h, n). length (ch_buf (c (q l))))"
    by (auto simp: linkEndpoint_Read_def queue_Read_def recv_nb_def
        split: list.splits if_splits)
qed

declare Drain_loop.simps [simp del]

definition linkEndpoint_Drain :: "linkEndpoint \<Rightarrow> refs \<Rightarrow> nat \<times> linkEndpoint \<times> refs" where
  "linkEndpoint_Drain l h = Drain_loop l h 0"

text \<open>
  \<^verbatim>\<open>Close\<close> has no result in Go; the model returns the state it leaves. The count
  \<^verbatim>\<open>Drain\<close> returns is dropped, as in the source's statement \<^verbatim>\<open>l.Drain()\<close>.
\<close>

definition linkEndpoint_Close :: "linkEndpoint \<Rightarrow> refs \<Rightarrow> go_panic + (linkEndpoint \<times> refs)" where
  "linkEndpoint_Close l h =
     (case queue_Close (q l) of
        Inl e \<Rightarrow> Inl e
      | Inr q' \<Rightarrow>
          (let l1 = l\<lparr>q := q'\<rparr>;
               l2 = l1\<lparr>gro := gro_Flush (gro l1)\<rparr>
           in case linkEndpoint_Drain l2 h of (n, l3, h3) \<Rightarrow> Inr (l3, h3)))"

text \<open>
  \<^verbatim>\<open>WritePackets\<close>: the \<^verbatim>\<open>range\<close> loop over the batch, with the count
  \<open>n\<close> of packets written so far. The result is the pair the Go function returns
  (\<open>None\<close> is a nil error), with the state left behind.
\<close>

fun WritePackets_loop ::
  "linkEndpoint \<Rightarrow> refs \<Rightarrow> nat \<Rightarrow> pkt list
    \<Rightarrow> go_panic + ((nat \<times> tcpip_Error option) \<times> linkEndpoint \<times> refs)" where
  "WritePackets_loop l h n [] = Inr ((n, None), l, h)"
| "WritePackets_loop l h n (pkt # pkts) =
     (case queue_Write (q l) h pkt of
        Inl e \<Rightarrow> Inl e
      | Inr (Some err, q', h') \<Rightarrow>
          if err \<noteq> ErrNoBufferSpace \<and> n = 0 then Inr ((0, Some err), l\<lparr>q := q'\<rparr>, h')
          else Inr ((n, None), l\<lparr>q := q'\<rparr>, h')
      | Inr (None, q', h') \<Rightarrow> WritePackets_loop (l\<lparr>q := q'\<rparr>) h' (n + 1) pkts)"

definition linkEndpoint_WritePackets ::
  "linkEndpoint \<Rightarrow> refs \<Rightarrow> pkt list
    \<Rightarrow> go_panic + ((nat \<times> tcpip_Error option) \<times> linkEndpoint \<times> refs)" where
  "linkEndpoint_WritePackets l h pkts = WritePackets_loop l h 0 pkts"

text \<open>
  The source allows \<^verbatim>\<open>Close\<close> to run concurrently with \<^verbatim>\<open>WritePackets\<close>.
  \<^verbatim>\<open>queue.Write\<close> holds the read lock and \<^verbatim>\<open>queue.Close\<close> the write lock of
  \<^verbatim>\<open>q.mu\<close>, so another goroutine's \<^verbatim>\<open>q.Close()\<close> takes effect between two
  rounds of the loop. In \<open>WritePackets_loop_conc\<close> each packet of the batch carries a
  flag: \<open>True\<close> when such a \<^verbatim>\<open>q.Close()\<close> runs just before the packet's round.
\<close>

fun WritePackets_loop_conc ::
  "linkEndpoint \<Rightarrow> refs \<Rightarrow> nat \<Rightarrow> (bool \<times> pkt) list
    \<Rightarrow> go_panic + ((nat \<times> tcpip_Error option) \<times> linkEndpoint \<times> refs)" where
  "WritePackets_loop_conc l h n [] = Inr ((n, None), l, h)"
| "WritePackets_loop_conc l h n ((cl, pkt) # pkts) =
     (case (if cl then queue_Close (q l) else Inr (q l)) of
        Inl e \<Rightarrow> Inl e
      | Inr q0 \<Rightarrow>
          (case queue_Write q0 h pkt of
             Inl e \<Rightarrow> Inl e
           | Inr (Some err, q', h') \<Rightarrow>
               if err \<noteq> ErrNoBufferSpace \<and> n = 0 then Inr ((0, Some err), l\<lparr>q := q'\<rparr>, h')
               else Inr ((n, None), l\<lparr>q := q'\<rparr>, h')
           | Inr (None, q', h') \<Rightarrow> WritePackets_loop_conc (l\<lparr>q := q'\<rparr>) h' (n + 1) pkts))"

subsection \<open>Calling an operation several times in a row\<close>

text \<open>
  \<open>Write_seq\<close> writes the packets one call after the other and collects the results;
  \<open>Read_seq n\<close> calls \<^verbatim>\<open>Read\<close> \<open>n\<close> times; \<open>Close_seq n\<close> calls
  \<^verbatim>\<open>Close\<close> \<open>n\<close> times, stopping at a panic.
\<close>

fun Write_seq ::
  "queue \<Rightarrow> refs \<Rightarrow> pkt list \<Rightarrow> go_panic + (tcpip_Error option list \<times> queue \<times> refs)" where
  "Write_seq qs h [] = Inr ([], qs, h)"
| "Write_seq qs h (p # ps) =
     (case queue_Write qs h p of
        Inl e \<Rightarrow> Inl e
      | Inr (r, qs', h') \<Rightarrow>
          (case Write_seq qs' h' ps of
             Inl e \<Rightarrow> Inl e
           | Inr (rs, qs'', h'') \<Rightarrow> Inr (r # rs, qs'', h'')))"

fun Read_seq :: "nat \<Rightarrow> queue \<Rightarrow> pkt option list \<times> queue" where
  "Read_seq 0 qs = ([], qs)"
| "Read_seq (Suc n) qs =
     (case queue_Read qs of
        (v, qs') \<Rightarrow> (case Read_seq n qs' of (vs, qs'') \<Rightarrow> (v # vs, qs'')))"

fun queue_Close_seq :: "nat \<Rightarrow> queue \<Rightarrow> go_panic + queue" where
  "queue_Close_seq 0 qs = Inr qs"
| "queue_Close_seq (Suc n) qs =
     (case queue_Close qs of Inl e \<Rightarrow> Inl e | Inr qs' \<Rightarrow> queue_Close_seq n qs')"

fun linkEndpoint_Close_seq ::
  "nat \<Rightarrow> linkEndpoint \<Rightarrow> refs \<Rightarrow> go_panic + (linkEndpoint \<times> refs)" where
  "linkEndpoint_Close_seq 0 l h = Inr (l, h)"
| "linkEndpoint_Close_seq (Suc n) l h =
     (case linkEndpoint_Close l h of
        Inl e \<Rightarrow> Inl e
      | Inr (l', h') \<Rightarrow> linkEndpoint_Close_seq n l' h')"

section \<open>Receive checksum offload\<close>

subsection \<open>Byte slices in memory\<close>

text \<open>
  A \<^verbatim>\<open>[]byte\<close> is the address of its backing array; \<open>cells\<close> gives the bytes
  stored at an address and \<open>brk\<close> is the first address not yet allocated.
  \<^verbatim>\<open>bytes.Clone\<close> allocates a new array holding a copy. Indexing and slicing
  panic out of range as in Go (the bounds of the slice expressions are taken against
  the length; Go allows up to the capacity, which is at least the length).
\<close>

record mem =
  cells :: "addr \<Rightarrow> byte list"
  brk :: addr

definition bytes_Clone :: "mem \<Rightarrow> byte list \<Rightarrow> addr \<times> mem" where
  "bytes_Clone m bs = (brk m, m\<lparr>cells := (cells m)(brk m := bs), brk := brk m + 1\<rparr>)"

definition go_index :: "'a list \<Rightarrow> nat \<Rightarrow> go_panic + 'a" where
  "go_index xs i = (if i < length xs then Inr (xs ! i) else Inl IndexOutOfRange)"

definition go_slice_to :: "'a list \<Rightarrow> nat \<Rightarrow> go_panic + 'a list" where
  "go_slice_to xs n = (if n \<le> length xs then Inr (take n xs) else Inl SliceBoundsOutOfRange)"

definition go_slice_from :: "'a list \<Rightarrow> nat \<Rightarrow> go_panic + 'a list" where
  "go_slice_from xs n = (if n \<le> length xs then Inr (drop n xs) else Inl SliceBoundsOutOfRange)"

subsection \<open>Checksums\<close>

text \<open>
  Modelled from the spec: \<^verbatim>\<open>tun.Checksum\<close> and \<^verbatim>\<open>tun.PseudoHeaderChecksum\<close>
  belong to wireguard-go and are not under src/. The spec's checksum is the
  one's-complement sum, with end-around carry, of the 16-bit big-endian words of the
  data (a last odd byte is the high byte of a word), started from an initial value; the
  pseudo-header checksum is that sum over the source address, the destination address,
  the protocol and the length.
\<close>

definition add1c :: "16 word \<Rightarrow> 16 word \<Rightarrow> 16 word" where
  "add1c x y =
     (let s = unat x + unat y in if s < 65536 then word_of_nat s else word_of_nat (s - 65535))"

definition be16 :: "byte \<Rightarrow> byte \<Rightarrow> 16 word" where
  "be16 hi lo = word_of_nat (256 * unat hi + unat lo)"

fun Checksum :: "byte list \<Rightarrow> 16 word \<Rightarrow> 16 word" where
  "Checksum [] initial = initial"
| "Checksum [x] initial = add1c initial (be16 x 0)"
| "Checksum (x # y # rest) initial = Checksum rest (add1c initial (be16 x y))"

definition PseudoHeaderChecksum :: "byte \<Rightarrow> byte list \<Rightarrow> byte list \<Rightarrow> 16 word \<Rightarrow> 16 word" where
  "PseudoHeaderChecksum protocol srcAddr dstAddr totalLen =
     Checksum [ucast (drop_bit 8 totalLen), ucast totalLen]
       (Checksum [0, protocol] (Checksum dstAddr (Checksum srcAddr 0)))"

subsection \<open>Parsed packets and packet buffers\<close>

text \<open>
  Modelled from the spec: \<^verbatim>\<open>packet.Parsed\<close>, \<^verbatim>\<open>ipproto\<close> and gVisor's
  \<^verbatim>\<open>header\<close> and \<^verbatim>\<open>stack.PacketBuffer\<close> are not under src/. The spec's parsed
  packet carries the raw buffer, the IP version, the transport protocol and the source
  and destination addresses; \<open>Src\<close> and \<open>Dst\<close> are the bytes
  \<^verbatim>\<open>Addr().AsSlice()\<close> yields. The protocol constants have their IANA values.
  A packet buffer has the fields this file sets.
\<close>

record Parsed =
  Buffer :: addr
  IPVersion :: byte
  IPProto :: byte
  Src :: "byte list"
  Dst :: "byte list"

definition ipproto_TCP :: byte where "ipproto_TCP = 0x06"
definition ipproto_UDP :: byte where "ipproto_UDP = 0x11"

definition header_IPv4ProtocolNumber :: "32 word" where "header_IPv4ProtocolNumber = 0x0800"
definition header_IPv6ProtocolNumber :: "32 word" where "header_IPv6ProtocolNumber = 0x86dd"

record PacketBuffer =
  Payload :: addr
  NetworkProtocolNumber :: "32 word"
  RXChecksumValidated :: bool

subsection \<open>rxChecksumOffload\<close>

text \<open>
  The \<^verbatim>\<open>switch p.IPVersion\<close>: \<open>Inr None\<close> is \<^verbatim>\<open>return nil\<close>;
  \<open>Inr (Some (pn, csumStart))\<close> are the values of the two variables when control
  leaves the switch (both zero when no case matches).
\<close>

definition rxChecksumOffload_switch :: "byte list \<Rightarrow> byte \<Rightarrow> go_panic + (32 word \<times> nat) option" where
  "rxChecksumOffload_switch buf v =
     (if v = 4 then
        (if length buf < 20 then Inr None
         else
           (case go_index buf 0 of
              Inl e \<Rightarrow> Inl e
            | Inr b0 \<Rightarrow>
                (let csumStart = unat ((b0 AND 0x0F) * 4) in
                 if csumStart < 20 \<or> csumStart > 60 \<or> length buf < csumStart then Inr None
                 else
                   (case go_slice_to buf csumStart of
                      Inl e \<Rightarrow> Inl e
                    | Inr hdr \<Rightarrow>
                        if NOT (Checksum hdr 0) \<noteq> 0 then Inr None
                        else Inr (Some (header_IPv4ProtocolNumber, csumStart))))))
      else if v = 6 then
        (if length buf < 40 then Inr None
         else Inr (Some (header_IPv6ProtocolNumber, 40)))
      else Inr (Some (0, 0)))"

text \<open>
  The transport checksum: \<open>Inr False\<close> is \<^verbatim>\<open>return nil\<close>, \<open>Inr True\<close>
  goes on to build the packet buffer. \<^verbatim>\<open>lenForPseudo\<close> is a Go \<^verbatim>\<open>int\<close>,
  cut to 16 bits by the conversion \<^verbatim>\<open>uint16(lenForPseudo)\<close>.
\<close>

definition rxChecksumOffload_transport :: "byte list \<Rightarrow> Parsed \<Rightarrow> nat \<Rightarrow> go_panic + bool" where
  "rxChecksumOffload_transport buf p csumStart =
     (let csumRequired = (IPProto p = ipproto_TCP \<or> IPProto p = ipproto_UDP) in
      if csumRequired then
        (let lenForPseudo = int (length buf) - int csumStart;
             csum = PseudoHeaderChecksum (IPProto p) (Src p) (Dst p) (word_of_int lenForPseudo)
         in case go_slice_from buf csumStart of
              Inl e \<Rightarrow> Inl e
            | Inr seg \<Rightarrow> if NOT (Checksum seg csum) \<noteq> 0 then Inr False else Inr True)
      else Inr True)"

definition rxChecksumOffload :: "mem \<Rightarrow> Parsed \<Rightarrow> go_panic + (PacketBuffer option \<times> mem)" where
  "rxChecksumOffload m p =
     (let buf = cells m (Buffer p) in
      case rxChecksumOffload_switch buf (IPVersion p) of
        Inl e \<Rightarrow> Inl e
      | Inr None \<Rightarrow> Inr (None, m)
      | Inr (Some (pn, csumStart)) \<Rightarrow>
          (case rxChecksumOffload_transport buf p csumStart of
             Inl e \<Rightarrow> Inl e
           | Inr False \<Rightarrow> Inr (None, m)
           | Inr True \<Rightarrow>
               (case bytes_Clone m buf of
                  (a, m') \<Rightarrow>
                    Inr (Some \<lparr>Payload = a, NetworkProtocolNumber = pn,
                               RXChecksumValidated = True\<rparr>, m'))))"

subsection \<open>The validator as the specification words it\<close>

text \<open>
  \<open>Validate_spec\<close> follows the specification's contract of \<^verbatim>\<open>Validate\<close>, to
  be compared with \<open>rxChecksumOffload\<close>: the header length of an IPv4 packet, the
  three length conditions and the header checksum; the 40-byte header of IPv6; the
  pseudo-header checksum extended over the transport segment for TCP and UDP.
\<close>

definition spec_header_length :: "byte list \<Rightarrow> nat" where
  "spec_header_length buf = 4 * unat (hd buf AND 0x0F)"

definition spec_ipv4_ok :: "byte list \<Rightarrow> bool" where
  "spec_ipv4_ok buf =
     (if length buf < 20 then False
      else if spec_header_length buf < 20 \<or> 60 < spec_header_length buf then False
      else if length buf < spec_header_length buf then False
      else NOT (Checksum (take (spec_header_length buf) buf) 0) = 0)"

definition spec_ipv6_ok :: "byte list \<Rightarrow> bool" where
  "spec_ipv6_ok buf = (40 \<le> length buf)"

definition spec_transport_start :: "byte list \<Rightarrow> byte \<Rightarrow> nat" where
  "spec_transport_start buf v =
     (if v = 4 then spec_header_length buf else if v = 6 then 40 else 0)"

definition spec_transport_ok :: "byte list \<Rightarrow> Parsed \<Rightarrow> bool" where
  "spec_transport_ok buf p =
     (let start = spec_transport_start buf (IPVersion p);
          seed = PseudoHeaderChecksum (IPProto p) (Src p) (Dst p)
                   (word_of_nat (length buf - start))
      in NOT (Checksum (drop start buf) seed) = 0)"

definition Validate_spec :: "byte list \<Rightarrow> Parsed \<Rightarrow> bool" where
  "Validate_spec buf p =
     ((if IPVersion p = 4 then spec_ipv4_ok buf
       else if IPVersion p = 6 then spec_ipv6_ok buf
       else True)
      \<and> (if IPProto p = ipproto_TCP \<or> IPProto p = ipproto_UDP then spec_transport_ok buf p
         else True))"

definition spec_protocol_number :: "byte \<Rightarrow> 32 word" where
  "spec_protocol_number v =
     (if v = 4 then header_IPv4ProtocolNumber
      else if v = 6 then header_IPv6ProtocolNumber
      else 0)"

subsection \<open>A sample packet\<close>

text \<open>
  A UDP datagram without payload from 10.0.0.1 port 1234 to 10.0.0.2 port 53: a 20-byte
  IPv4 header with header checksum \<open>0x66cf\<close>, then the 8-byte UDP header with
  checksum \<open>0xe6d4\<close>.
\<close>

definition udp4_example :: "byte list" where
  "udp4_example =
     [0x45, 0x00, 0x00, 0x1c, 0x00, 0x00, 0x00, 0x00, 0x40, 0x11, 0x66, 0xcf,
      0x0a, 0x00, 0x00, 0x01, 0x0a, 0x00, 0x00, 0x02,
      0x04, 0xd2, 0x00, 0x35, 0x00, 0x08, 0xe6, 0xd4]"

section \<open>Properties of the queue\<close>

lemma DecRef_IncRef: "DecRef (IncRef h p) p = h"
  by (simp add: IncRef_def DecRef_def fun_eq_iff)

lemma queue_Write_closed:
  "closed qs \<Longrightarrow> queue_Write qs h pkt = Inr (Some ErrClosedForSend, qs, h)"
  by (simp add: queue_Write_def)

lemma queue_Write_full:
  "\<not> closed qs \<Longrightarrow> \<not> ch_closed (c qs) \<Longrightarrow> ch_cap (c qs) \<le> length (ch_buf (c qs)) \<Longrightarrow>
   queue_Write qs h pkt = Inr (Some ErrNoBufferSpace, qs, h)"
  by (simp add: queue_Write_def send_nb_def DecRef_IncRef)

lemma queue_Write_room:
  "\<not> closed qs \<Longrightarrow> \<not> ch_closed (c qs) \<Longrightarrow> length (ch_buf (c qs)) < ch_cap (c qs) \<Longrightarrow>
   queue_Write qs h pkt =
     Inr (None, qs\<lparr>c := (c qs)\<lparr>ch_buf := ch_buf (c qs) @ [pkt]\<rparr>\<rparr>, IncRef h pkt)"
  by (simp add: queue_Write_def send_nb_def)

lemma queue_Read_empty: "ch_buf (c qs) = [] \<Longrightarrow> queue_Read qs = (None, qs)"
  by (simp add: queue_Read_def recv_nb_def)

lemma queue_Read_Cons:
  "queue_Read (qs\<lparr>c := (c qs)\<lparr>ch_buf := p # ps\<rparr>\<rparr>) = (Some p, qs\<lparr>c := (c qs)\<lparr>ch_buf := ps\<rparr>\<rparr>)"
  by (simp add: queue_Read_def recv_nb_def)

lemma Write_seq_room:
  "\<not> closed qs \<Longrightarrow> \<not> ch_closed (c qs) \<Longrightarrow> length (ch_buf (c qs)) + length ps \<le> ch_cap (c qs) \<Longrightarrow>
   Write_seq qs h ps =
     Inr (replicate (length ps) None, qs\<lparr>c := (c qs)\<lparr>ch_buf := ch_buf (c qs) @ ps\<rparr>\<rparr>,
          foldl IncRef h ps)"
proof (induction ps arbitrary: qs h)
  case Nil
  then show ?case by simp
next
  case (Cons p ps)
  let ?qs1 = "qs\<lparr>c := (c qs)\<lparr>ch_buf := ch_buf (c qs) @ [p]\<rparr>\<rparr>"
  have w: "queue_Write qs h p = Inr (None, ?qs1, IncRef h p)"
    using Cons.prems by (simp add: queue_Write_room)
  have "Write_seq ?qs1 (IncRef h p) ps =
     Inr (replicate (length ps) None, ?qs1\<lparr>c := (c ?qs1)\<lparr>ch_buf := ch_buf (c ?qs1) @ ps\<rparr>\<rparr>,
          foldl IncRef (IncRef h p) ps)"
    using Cons.prems by (intro Cons.IH) simp_all
  with w show ?case by simp
qed

lemma Read_seq_prefix:
  "Read_seq (length ps) (qs\<lparr>c := (c qs)\<lparr>ch_buf := ps @ rest\<rparr>\<rparr>)
     = (map Some ps, qs\<lparr>c := (c qs)\<lparr>ch_buf := rest\<rparr>\<rparr>)"
proof (induction ps arbitrary: qs)
  case Nil
  then show ?case by simp
next
  case (Cons p ps)
  have r: "queue_Read (qs\<lparr>c := (c qs)\<lparr>ch_buf := (p # ps) @ rest\<rparr>\<rparr>)
      = (Some p, qs\<lparr>c := (c qs)\<lparr>ch_buf := ps @ rest\<rparr>\<rparr>)"
    by (simp add: queue_Read_Cons)
  show ?case
    using Cons.IH [of qs] by (simp add: r del: append.simps)
qed

text \<open>
  C3. In an open, empty queue of capacity \<open>N\<close>, writing \<open>M \<le> N\<close> packets one
  call at a time succeeds every time (each result is nil, each packet gains one
  reference); \<open>M\<close> calls of \<^verbatim>\<open>Read\<close> then return exactly those packets in the
  order written, and leave the queue empty again, so that a further \<^verbatim>\<open>Read\<close>
  returns nil: nothing is duplicated or lost.
\<close>

theorem queue_Write_Read_fifo:
  assumes "\<not> closed qs" and "\<not> ch_closed (c qs)" and "ch_buf (c qs) = []"
    and "length ps \<le> ch_cap (c qs)"
  shows "Write_seq qs h ps =
           Inr (replicate (length ps) None, qs\<lparr>c := (c qs)\<lparr>ch_buf := ps\<rparr>\<rparr>, foldl IncRef h ps)
         \<and> queue_Num (qs\<lparr>c := (c qs)\<lparr>ch_buf := ps\<rparr>\<rparr>) = length ps
         \<and> Read_seq (length ps) (qs\<lparr>c := (c qs)\<lparr>ch_buf := ps\<rparr>\<rparr>) = (map Some ps, qs)
         \<and> queue_Read qs = (None, qs)"
proof -
  let ?qs' = "qs\<lparr>c := (c qs)\<lparr>ch_buf := ps\<rparr>\<rparr>"
  have w: "Write_seq qs h ps = Inr (replicate (length ps) None, ?qs', foldl IncRef h ps)"
    using assms Write_seq_room [of qs ps h] by simp
  have "Read_seq (length ps) (qs\<lparr>c := (c qs)\<lparr>ch_buf := ps @ []\<rparr>\<rparr>)
      = (map Some ps, qs\<lparr>c := (c qs)\<lparr>ch_buf := []\<rparr>\<rparr>)"
    by (rule Read_seq_prefix)
  moreover have "qs\<lparr>c := (c qs)\<lparr>ch_buf := []\<rparr>\<rparr> = qs"
    using assms(3) by (cases qs, cases "c qs") simp
  ultimately have r: "Read_seq (length ps) ?qs' = (map Some ps, qs)"
    by simp
  show ?thesis
    using w r queue_Read_empty [OF assms(3)] by (simp add: queue_Num_def)
qed

theorem queue_Write_Read_fifo_witness:
  "Write_seq \<lparr>c = \<lparr>ch_buf = [], ch_cap = 3, ch_closed = False\<rparr>, closed = False\<rparr> (\<lambda>_. 1) [7, 8, 9]
     = Inr ([None, None, None],
            \<lparr>c = \<lparr>ch_buf = [7, 8, 9], ch_cap = 3, ch_closed = False\<rparr>, closed = False\<rparr>,
            IncRef (IncRef (IncRef (\<lambda>_. 1) 7) 8) 9)
   \<and> Read_seq 3 \<lparr>c = \<lparr>ch_buf = [7, 8, 9], ch_cap = 3, ch_closed = False\<rparr>, closed = False\<rparr>
     = ([Some 7, Some 8, Some 9],
        \<lparr>c = \<lparr>ch_buf = [], ch_cap = 3, ch_closed = False\<rparr>, closed = False\<rparr>)"
  using queue_Write_Read_fifo
    [of "\<lparr>c = \<lparr>ch_buf = [], ch_cap = 3, ch_closed = False\<rparr>, closed = False\<rparr>" "[7, 8, 9]" "\<lambda>_. 1"]
  by (simp add: numeral_3_eq_3)

text \<open>
  C4. \<^verbatim>\<open>Write\<close> on a closed queue fails with \<^verbatim>\<open>ErrClosedForSend\<close>, whatever
  the channel holds, and changes neither the queue nor any reference count.
  \<^verbatim>\<open>Write\<close> on an open queue that holds as many packets as its capacity fails
  with \<^verbatim>\<open>ErrNoBufferSpace\<close>: the reference taken for the send is released again
  (the counts end as they began), and the queue, with its depth \<open>N\<close>, is unchanged.
\<close>

theorem queue_Write_closed_or_full:
  "(closed qs \<longrightarrow> queue_Write qs h pkt = Inr (Some ErrClosedForSend, qs, h))
   \<and> (\<not> closed qs \<and> \<not> ch_closed (c qs) \<and> length (ch_buf (c qs)) = ch_cap (c qs) \<longrightarrow>
        queue_Write qs h pkt = Inr (Some ErrNoBufferSpace, qs, DecRef (IncRef h pkt) pkt)
        \<and> DecRef (IncRef h pkt) pkt = h
        \<and> queue_Num qs = ch_cap (c qs))"
  by (simp add: queue_Write_def send_nb_def DecRef_IncRef queue_Num_def)

theorem queue_Write_closed_or_full_witness:
  "queue_Write \<lparr>c = \<lparr>ch_buf = [1, 2], ch_cap = 2, ch_closed = True\<rparr>, closed = True\<rparr> (\<lambda>_. 1) 3
     = Inr (Some ErrClosedForSend,
            \<lparr>c = \<lparr>ch_buf = [1, 2], ch_cap = 2, ch_closed = True\<rparr>, closed = True\<rparr>, (\<lambda>_. 1))
   \<and> queue_Write \<lparr>c = \<lparr>ch_buf = [1, 2], ch_cap = 2, ch_closed = False\<rparr>, closed = False\<rparr> (\<lambda>_. 1) 3
     = Inr (Some ErrNoBufferSpace,
            \<lparr>c = \<lparr>ch_buf = [1, 2], ch_cap = 2, ch_closed = False\<rparr>, closed = False\<rparr>, (\<lambda>_. 1))"
  using queue_Write_closed_or_full
      [of "\<lparr>c = \<lparr>ch_buf = [1, 2], ch_cap = 2, ch_closed = True\<rparr>, closed = True\<rparr>" "\<lambda>_. 1" 3]
    queue_Write_closed_or_full
      [of "\<lparr>c = \<lparr>ch_buf = [1, 2], ch_cap = 2, ch_closed = False\<rparr>, closed = False\<rparr>" "\<lambda>_. 1" 3]
  by simp

section \<open>Properties of the link endpoint\<close>

text \<open>
  A new endpoint has an open, empty, well-formed queue; every operation keeps the queue
  well-formed, and on a well-formed queue neither \<^verbatim>\<open>Write\<close> nor \<^verbatim>\<open>Close\<close>
  panics.
\<close>

lemma newLinkEndpoint_wf:
  "newLinkEndpoint n m a = Inr l \<Longrightarrow>
   queue_wf (q l) \<and> \<not> closed (q l) \<and> ch_buf (c (q l)) = [] \<and> int (ch_cap (c (q l))) = n"
  by (auto simp: newLinkEndpoint_def make_chan_def queue_wf_def split: if_splits)

lemma newLinkEndpoint_Inr: "0 \<le> n \<Longrightarrow> \<exists>l. newLinkEndpoint n m a = Inr l"
  by (simp add: newLinkEndpoint_def make_chan_def)

lemma queue_Write_wf:
  "queue_wf qs \<Longrightarrow> \<exists>r qs' h'. queue_Write qs h pkt = Inr (r, qs', h') \<and> queue_wf qs'"
  by (auto simp: queue_wf_def queue_Write_def send_nb_def Let_def)

lemma queue_Read_wf: "queue_wf qs \<Longrightarrow> queue_wf (snd (queue_Read qs))"
  by (auto simp: queue_wf_def queue_Read_def recv_nb_def split: list.splits)

lemma queue_ReadContext_wf:
  "queue_wf qs \<Longrightarrow> queue_ReadContext qs d pick = Some (v, qs') \<Longrightarrow> queue_wf qs'"
  by (auto simp: queue_wf_def queue_ReadContext_def ReadContext_ready_def recv_nb_def Let_def
      split: list.splits if_splits select_case.splits)

lemma queue_Close_wf: "queue_wf qs \<Longrightarrow> \<exists>qs'. queue_Close qs = Inr qs' \<and> queue_wf qs'"
  by (auto simp: queue_wf_def queue_Close_def close_chan_def)

lemma linkEndpoint_Read_Nil:
  "ch_buf (c (q l)) = [] \<Longrightarrow> linkEndpoint_Read l = (None, l)"
  by (simp add: linkEndpoint_Read_def queue_Read_empty)

lemma linkEndpoint_Read_Cons:
  "ch_buf (c (q l)) = p # ps \<Longrightarrow>
   linkEndpoint_Read l = (Some p, l\<lparr>q := (q l)\<lparr>c := (c (q l))\<lparr>ch_buf := ps\<rparr>\<rparr>\<rparr>)"
  by (simp add: linkEndpoint_Read_def queue_Read_def recv_nb_def)

lemma Drain_loop_eq:
  "Drain_loop l h n =
     (n + length (ch_buf (c (q l))),
      l\<lparr>q := (q l)\<lparr>c := (c (q l))\<lparr>ch_buf := []\<rparr>\<rparr>\<rparr>,
      foldl DecRef h (ch_buf (c (q l))))"
proof (induction xs \<equiv> "ch_buf (c (q l))" arbitrary: l h n)
  case Nil
  then have e: "ch_buf (c (q l)) = []" by simp
  have "l\<lparr>q := (q l)\<lparr>c := (c (q l))\<lparr>ch_buf := []\<rparr>\<rparr>\<rparr> = l"
    using e by (cases l, cases "q l", cases "c (q l)") simp
  then show ?case
    using e by (subst Drain_loop.simps) (simp add: linkEndpoint_Read_Nil)
next
  case (Cons p ps)
  then have e: "ch_buf (c (q l)) = p # ps" by simp
  let ?l1 = "l\<lparr>q := (q l)\<lparr>c := (c (q l))\<lparr>ch_buf := ps\<rparr>\<rparr>\<rparr>"
  have "Drain_loop ?l1 (DecRef h p) (n + 1) =
     (n + 1 + length (ch_buf (c (q ?l1))),
      ?l1\<lparr>q := (q ?l1)\<lparr>c := (c (q ?l1))\<lparr>ch_buf := []\<rparr>\<rparr>\<rparr>,
      foldl DecRef (DecRef h p) (ch_buf (c (q ?l1))))"
    by (rule Cons.hyps(1)) simp
  then show ?case
    using e by (subst Drain_loop.simps) (simp add: linkEndpoint_Read_Cons)
qed

lemma linkEndpoint_Drain_eq:
  "linkEndpoint_Drain l h =
     (length (ch_buf (c (q l))),
      l\<lparr>q := (q l)\<lparr>c := (c (q l))\<lparr>ch_buf := []\<rparr>\<rparr>\<rparr>,
      foldl DecRef h (ch_buf (c (q l))))"
  by (simp add: linkEndpoint_Drain_def Drain_loop_eq)

lemma queue_Close_closed: "closed qs \<Longrightarrow> queue_Close qs = Inr qs"
  by (simp add: queue_Close_def)

lemma queue_Close_open:
  "\<not> closed qs \<Longrightarrow> \<not> ch_closed (c qs) \<Longrightarrow>
   queue_Close qs = Inr (qs\<lparr>c := (c qs)\<lparr>ch_closed := True\<rparr>, closed := True\<rparr>)"
  by (simp add: queue_Close_def close_chan_def)

lemma queue_Close_Inr: "queue_Close qs = Inr qs' \<Longrightarrow> closed qs'"
  by (auto simp: queue_Close_def close_chan_def split: if_splits sum.splits)

lemma linkEndpoint_Close_eq:
  "queue_Close (q l) = Inr q' \<Longrightarrow>
   linkEndpoint_Close l h =
     Inr (l\<lparr>q := q'\<lparr>c := (c q')\<lparr>ch_buf := []\<rparr>\<rparr>, gro := gro_Flush (gro l)\<rparr>,
          foldl DecRef h (ch_buf (c q')))"
  by (simp add: linkEndpoint_Close_def linkEndpoint_Drain_eq Let_def)

lemma gro_Flush_idem: "gro_Flush (gro_Flush g) = gro_Flush g"
  by (simp add: gro_Flush_def)

lemma linkEndpoint_Close_twice:
  assumes "linkEndpoint_Close l h = Inr (l', h')"
  shows "linkEndpoint_Close l' h' = Inr (l', h')"
proof -
  obtain q' where q': "queue_Close (q l) = Inr q'"
    using assms by (auto simp: linkEndpoint_Close_def split: sum.splits)
  have cl: "closed q'" using q' by (rule queue_Close_Inr)
  from assms linkEndpoint_Close_eq [OF q', of h]
  have l': "l' = l\<lparr>q := q'\<lparr>c := (c q')\<lparr>ch_buf := []\<rparr>\<rparr>, gro := gro_Flush (gro l)\<rparr>"
    and h': "h' = foldl DecRef h (ch_buf (c q'))"
    by simp_all
  have "queue_Close (q l') = Inr (q l')"
    using cl by (simp add: l' queue_Close_closed)
  from linkEndpoint_Close_eq [OF this, of h']
  show ?thesis
    by (simp add: l' gro_Flush_idem)
qed

lemma queue_Close_twice: "queue_Close qs = Inr qs' \<Longrightarrow> queue_Close qs' = Inr qs'"
  by (simp add: queue_Close_Inr queue_Close_closed)

lemma queue_Close_seq_fix: "queue_Close qs = Inr qs \<Longrightarrow> queue_Close_seq n qs = Inr qs"
  by (induction n) simp_all

lemma linkEndpoint_Close_seq_fix:
  "linkEndpoint_Close l h = Inr (l, h) \<Longrightarrow> linkEndpoint_Close_seq n l h = Inr (l, h)"
  by (induction n) simp_all


lemma le_q_c_buf_same [simp]:
  "l\<lparr>q := (q l)\<lparr>c := (c (q l))\<lparr>ch_buf := ch_buf (c (q l))\<rparr>\<rparr>\<rparr> = l"
  by simp

lemma WritePackets_loop_open:
  "\<not> closed (q l) \<Longrightarrow> \<not> ch_closed (c (q l)) \<Longrightarrow>
   WritePackets_loop l h n pkts =
     Inr ((n + min (length pkts) (ch_cap (c (q l)) - length (ch_buf (c (q l)))), None),
          l\<lparr>q := (q l)\<lparr>c := (c (q l))\<lparr>ch_buf := ch_buf (c (q l)) @
             take (ch_cap (c (q l)) - length (ch_buf (c (q l)))) pkts\<rparr>\<rparr>\<rparr>,
          foldl IncRef h (take (ch_cap (c (q l)) - length (ch_buf (c (q l)))) pkts))"
proof (induction pkts arbitrary: l h n)
  case Nil
  then show ?case by simp
next
  case (Cons p ps)
  show ?case
  proof (cases "length (ch_buf (c (q l))) < ch_cap (c (q l))")
    case True
    let ?l1 = "l\<lparr>q := (q l)\<lparr>c := (c (q l))\<lparr>ch_buf := ch_buf (c (q l)) @ [p]\<rparr>\<rparr>\<rparr>"
    have w: "queue_Write (q l) h p = Inr (None, q ?l1, IncRef h p)"
      using Cons.prems True by (simp add: queue_Write_room)
    have ih: "WritePackets_loop ?l1 (IncRef h p) (n + 1) ps =
       Inr ((n + 1 + min (length ps) (ch_cap (c (q ?l1)) - length (ch_buf (c (q ?l1)))), None),
            ?l1\<lparr>q := (q ?l1)\<lparr>c := (c (q ?l1))\<lparr>ch_buf := ch_buf (c (q ?l1)) @
               take (ch_cap (c (q ?l1)) - length (ch_buf (c (q ?l1)))) ps\<rparr>\<rparr>\<rparr>,
            foldl IncRef (IncRef h p) (take (ch_cap (c (q ?l1)) - length (ch_buf (c (q ?l1)))) ps))"
      using Cons.prems by (intro Cons.IH) simp_all
    obtain d where d: "ch_cap (c (q l)) - length (ch_buf (c (q l))) = Suc d"
      using True by (metis Suc_diff_Suc)
    then have d': "ch_cap (c (q l)) - Suc (length (ch_buf (c (q l)))) = d"
      by simp
    show ?thesis
      using w ih by (simp add: d d')
  next
    case False
    then have w: "queue_Write (q l) h p = Inr (Some ErrNoBufferSpace, q l, h)"
      using Cons.prems by (simp add: queue_Write_full)
    show ?thesis
      using w False by simp
  qed
qed

lemma WritePackets_loop_closed:
  "closed (q l) \<Longrightarrow> WritePackets_loop l h n (p # ps) =
     (if n = 0 then Inr ((0, Some ErrClosedForSend), l, h) else Inr ((n, None), l, h))"
  by (simp add: queue_Write_closed)

text \<open>
  C7. \<^verbatim>\<open>Close\<close> is idempotent, on the queue and on the link endpoint: \<open>n\<close>
  further calls after a first one give what the first one gave; a \<^verbatim>\<open>Close\<close>
  that follows a completed \<^verbatim>\<open>Close\<close> does not panic and changes neither the
  queue, the endpoint nor any reference count (no packet is released twice), and the
  closed flag stays set. The first \<^verbatim>\<open>Close\<close> does not panic either when the
  channel is closed only if the flag is set, which every endpoint built by
  \<^verbatim>\<open>newLinkEndpoint\<close> satisfies.
\<close>

theorem Close_idempotent:
  "queue_Close_seq (Suc n) qs = queue_Close qs
   \<and> linkEndpoint_Close_seq (Suc n) l h = linkEndpoint_Close l h
   \<and> (queue_Close qs = Inr qs' \<longrightarrow> closed qs' \<and> queue_Close qs' = Inr qs')
   \<and> (linkEndpoint_Close l h = Inr (l', h') \<longrightarrow>
        closed (q l') \<and> linkEndpoint_Close l' h' = Inr (l', h'))
   \<and> (closed (q l) \<or> \<not> ch_closed (c (q l)) \<longrightarrow> (\<exists>l' h'. linkEndpoint_Close l h = Inr (l', h')))"
proof (intro conjI impI)
  show "queue_Close_seq (Suc n) qs = queue_Close qs"
    by (cases "queue_Close qs") (simp_all add: queue_Close_twice queue_Close_seq_fix)
  show "linkEndpoint_Close_seq (Suc n) l h = linkEndpoint_Close l h"
    by (cases "linkEndpoint_Close l h")
      (auto simp: linkEndpoint_Close_twice linkEndpoint_Close_seq_fix)
  show "closed qs'" if "queue_Close qs = Inr qs'"
    using that by (rule queue_Close_Inr)
  show "queue_Close qs' = Inr qs'" if "queue_Close qs = Inr qs'"
    using that by (rule queue_Close_twice)
  show "linkEndpoint_Close l' h' = Inr (l', h')" if "linkEndpoint_Close l h = Inr (l', h')"
    using that by (rule linkEndpoint_Close_twice)
  show "closed (q l')" if a: "linkEndpoint_Close l h = Inr (l', h')"
  proof -
    obtain q' where q': "queue_Close (q l) = Inr q'"
      using a by (auto simp: linkEndpoint_Close_def split: sum.splits)
    with a linkEndpoint_Close_eq [OF q', of h] queue_Close_Inr [OF q'] show ?thesis
      by auto
  qed
  show "\<exists>l' h'. linkEndpoint_Close l h = Inr (l', h')" if "closed (q l) \<or> \<not> ch_closed (c (q l))"
  proof (cases "closed (q l)")
    case True
    then show ?thesis
      using linkEndpoint_Close_eq [OF queue_Close_closed, of l h] by simp
  next
    case False
    with that have "\<not> ch_closed (c (q l))" by simp
    from linkEndpoint_Close_eq [OF queue_Close_open [OF False this], of h]
    show ?thesis by simp
  qed
qed

theorem Close_idempotent_witness:
  "queue_Close \<lparr>c = \<lparr>ch_buf = [7, 8], ch_cap = 2, ch_closed = False\<rparr>, closed = False\<rparr>
     = Inr \<lparr>c = \<lparr>ch_buf = [7, 8], ch_cap = 2, ch_closed = True\<rparr>, closed = True\<rparr>
   \<and> queue_Close \<lparr>c = \<lparr>ch_buf = [7, 8], ch_cap = 2, ch_closed = True\<rparr>, closed = True\<rparr>
     = Inr \<lparr>c = \<lparr>ch_buf = [7, 8], ch_cap = 2, ch_closed = True\<rparr>, closed = True\<rparr>
   \<and> linkEndpoint_Close
        \<lparr>SupportedGSOKind = GSONotSupported, dispatcher = None, linkAddr = [], mtu = 1280,
         q = \<lparr>c = \<lparr>ch_buf = [7, 8], ch_cap = 2, ch_closed = False\<rparr>, closed = False\<rparr>,
         gro = gro_Init\<rparr> (\<lambda>_. 1)
     = Inr (\<lparr>SupportedGSOKind = GSONotSupported, dispatcher = None, linkAddr = [], mtu = 1280,
         q = \<lparr>c = \<lparr>ch_buf = [], ch_cap = 2, ch_closed = True\<rparr>, closed = True\<rparr>,
         gro = gro_Init\<rparr>, DecRef (DecRef (\<lambda>_. 1) 7) 8)
   \<and> linkEndpoint_Close
        \<lparr>SupportedGSOKind = GSONotSupported, dispatcher = None, linkAddr = [], mtu = 1280,
         q = \<lparr>c = \<lparr>ch_buf = [], ch_cap = 2, ch_closed = True\<rparr>, closed = True\<rparr>,
         gro = gro_Init\<rparr> (DecRef (DecRef (\<lambda>_. 1) 7) 8)
     = Inr (\<lparr>SupportedGSOKind = GSONotSupported, dispatcher = None, linkAddr = [], mtu = 1280,
         q = \<lparr>c = \<lparr>ch_buf = [], ch_cap = 2, ch_closed = True\<rparr>, closed = True\<rparr>,
         gro = gro_Init\<rparr>, DecRef (DecRef (\<lambda>_. 1) 7) 8)"
proof -
  let ?q0 = "\<lparr>c = \<lparr>ch_buf = [7, 8], ch_cap = 2, ch_closed = False\<rparr>, closed = False\<rparr>"
  let ?q1 = "\<lparr>c = \<lparr>ch_buf = [7, 8], ch_cap = 2, ch_closed = True\<rparr>, closed = True\<rparr>"
  let ?l0 = "\<lparr>SupportedGSOKind = GSONotSupported, dispatcher = None, linkAddr = [], mtu = 1280,
         q = ?q0, gro = gro_Init\<rparr>"
  let ?l1 = "\<lparr>SupportedGSOKind = GSONotSupported, dispatcher = None, linkAddr = [], mtu = 1280,
         q = \<lparr>c = \<lparr>ch_buf = [], ch_cap = 2, ch_closed = True\<rparr>, closed = True\<rparr>,
         gro = gro_Init\<rparr>"
  let ?h0 = "\<lambda>_::pkt. 1::int"
  let ?h1 = "DecRef (DecRef ?h0 7) 8"
  have a: "queue_Close ?q0 = Inr ?q1"
    by (simp add: queue_Close_def close_chan_def)
  have b: "linkEndpoint_Close ?l0 ?h0 = Inr (?l1, ?h1)"
    using linkEndpoint_Close_eq [of ?l0 ?q1 ?h0] a
    by (simp add: gro_Flush_def gro_Init_def)
  show ?thesis
    using Close_idempotent [of 0 ?q0 ?l0 ?h0 ?q1 ?l1 ?h1] a b by simp
qed

lemma foldl_DecRef_count:
  "foldl DecRef h ps p = h p - int (count_list ps p)"
  by (induction ps arbitrary: h) (simp_all add: DecRef_def)

lemma foldl_IncRef_count:
  "foldl IncRef h ps p = h p + int (count_list ps p)"
  by (induction ps arbitrary: h) (simp_all add: IncRef_def)

text \<open>
  C8 (amended). On an endpoint whose channel is closed exactly when the queue's flag is
  set, \<^verbatim>\<open>Close\<close> closes the outbound queue, flushes the GRO batcher (nothing
  stays pending) and drains the queue: every buffered packet loses one reference per
  occurrence in the buffer. \<^verbatim>\<open>Close\<close> returns nothing: its outcome is the state it
  leaves, in which no count appears. The count of drained packets is what
  \<^verbatim>\<open>Drain\<close> returns, and \<^verbatim>\<open>Close\<close> discards it.
\<close>

theorem linkEndpoint_Close_drains:
  assumes "ch_closed (c (q l)) = closed (q l)"
  shows "linkEndpoint_Close l h =
           Inr (l\<lparr>q := \<lparr>c = (c (q l))\<lparr>ch_buf := [], ch_closed := True\<rparr>, closed = True\<rparr>,
                  gro := gro_Flush (gro l)\<rparr>,
                foldl DecRef h (ch_buf (c (q l))))
         \<and> gro_pending (gro_Flush (gro l)) = []
         \<and> foldl DecRef h (ch_buf (c (q l))) p = h p - int (count_list (ch_buf (c (q l))) p)
         \<and> linkEndpoint_Drain l h =
             (length (ch_buf (c (q l))),
              l\<lparr>q := (q l)\<lparr>c := (c (q l))\<lparr>ch_buf := []\<rparr>\<rparr>\<rparr>,
              foldl DecRef h (ch_buf (c (q l))))"
proof -
  have "linkEndpoint_Close l h =
           Inr (l\<lparr>q := \<lparr>c = (c (q l))\<lparr>ch_buf := [], ch_closed := True\<rparr>, closed = True\<rparr>,
                  gro := gro_Flush (gro l)\<rparr>,
                foldl DecRef h (ch_buf (c (q l))))"
  proof (cases "closed (q l)")
    case True
    have "(q l)\<lparr>c := (c (q l))\<lparr>ch_buf := []\<rparr>\<rparr>
        = \<lparr>c = (c (q l))\<lparr>ch_buf := [], ch_closed := True\<rparr>, closed = True\<rparr>"
      using True assms by (cases "q l", cases "c (q l)") simp
    then show ?thesis
      using linkEndpoint_Close_eq [OF queue_Close_closed [OF True], of h] by simp
  next
    case False
    then have nc: "\<not> ch_closed (c (q l))" using assms by simp
    have "(q l)\<lparr>c := (c (q l))\<lparr>ch_closed := True\<rparr>, closed := True\<rparr>
          \<lparr>c := (c ((q l)\<lparr>c := (c (q l))\<lparr>ch_closed := True\<rparr>, closed := True\<rparr>))\<lparr>ch_buf := []\<rparr>\<rparr>
        = \<lparr>c = (c (q l))\<lparr>ch_buf := [], ch_closed := True\<rparr>, closed = True\<rparr>"
      by (cases "q l", cases "c (q l)") simp
    then show ?thesis
      using linkEndpoint_Close_eq [OF queue_Close_open [OF False nc], of h] by simp
  qed
  then show ?thesis
    by (simp add: gro_Flush_def foldl_DecRef_count linkEndpoint_Drain_eq)
qed

theorem linkEndpoint_Close_drains_witness:
  "linkEndpoint_Close
     \<lparr>SupportedGSOKind = GSONotSupported, dispatcher = Some 1, linkAddr = [], mtu = 1280,
      q = \<lparr>c = \<lparr>ch_buf = [7, 8, 7], ch_cap = 4, ch_closed = False\<rparr>, closed = False\<rparr>,
      gro = \<lparr>Dispatcher = Some 1, gro_pending = [5], gro_delivered = [4]\<rparr>\<rparr>
     (\<lambda>_. 3)
   = Inr (\<lparr>SupportedGSOKind = GSONotSupported, dispatcher = Some 1, linkAddr = [], mtu = 1280,
      q = \<lparr>c = \<lparr>ch_buf = [], ch_cap = 4, ch_closed = True\<rparr>, closed = True\<rparr>,
      gro = \<lparr>Dispatcher = Some 1, gro_pending = [], gro_delivered = [4, 5]\<rparr>\<rparr>,
      DecRef (DecRef (DecRef (\<lambda>_. 3) 7) 8) 7)
   \<and> DecRef (DecRef (DecRef (\<lambda>_. 3) 7) 8) 7 7 = 1
   \<and> fst (linkEndpoint_Drain
     \<lparr>SupportedGSOKind = GSONotSupported, dispatcher = Some 1, linkAddr = [], mtu = 1280,
      q = \<lparr>c = \<lparr>ch_buf = [7, 8, 7], ch_cap = 4, ch_closed = False\<rparr>, closed = False\<rparr>,
      gro = \<lparr>Dispatcher = Some 1, gro_pending = [5], gro_delivered = [4]\<rparr>\<rparr>
     (\<lambda>_. 3)) = 3"
  using linkEndpoint_Close_drains
    [of "\<lparr>SupportedGSOKind = GSONotSupported, dispatcher = Some 1, linkAddr = [], mtu = 1280,
      q = \<lparr>c = \<lparr>ch_buf = [7, 8, 7], ch_cap = 4, ch_closed = False\<rparr>, closed = False\<rparr>,
      gro = \<lparr>Dispatcher = Some 1, gro_pending = [5], gro_delivered = [4]\<rparr>\<rparr>" "\<lambda>_. 3" 7]
  by (simp add: gro_Flush_def)

text \<open>
  C8 as stated fails: \<^verbatim>\<open>Close\<close> does not report the drain count. One endpoint
  holds packet 7 (with two references), the other holds nothing (packet 7 with one
  reference). \<^verbatim>\<open>Close\<close> gives the same outcome on both, although the drain
  inside it removes one packet in the first run and none in the second.
\<close>

theorem linkEndpoint_Close_count_not_reported:
  "linkEndpoint_Close
     \<lparr>SupportedGSOKind = GSONotSupported, dispatcher = None, linkAddr = [], mtu = 1280,
      q = \<lparr>c = \<lparr>ch_buf = [7], ch_cap = 1, ch_closed = False\<rparr>, closed = False\<rparr>, gro = gro_Init\<rparr>
     ((\<lambda>_. 1)(7 := 2))
   = linkEndpoint_Close
     \<lparr>SupportedGSOKind = GSONotSupported, dispatcher = None, linkAddr = [], mtu = 1280,
      q = \<lparr>c = \<lparr>ch_buf = [], ch_cap = 1, ch_closed = False\<rparr>, closed = False\<rparr>, gro = gro_Init\<rparr>
     (\<lambda>_. 1)
   \<and> fst (linkEndpoint_Drain
     \<lparr>SupportedGSOKind = GSONotSupported, dispatcher = None, linkAddr = [], mtu = 1280,
      q = \<lparr>c = \<lparr>ch_buf = [7], ch_cap = 1, ch_closed = False\<rparr>, closed = False\<rparr>, gro = gro_Init\<rparr>
     ((\<lambda>_. 1)(7 := 2))) = 1
   \<and> fst (linkEndpoint_Drain
     \<lparr>SupportedGSOKind = GSONotSupported, dispatcher = None, linkAddr = [], mtu = 1280,
      q = \<lparr>c = \<lparr>ch_buf = [], ch_cap = 1, ch_closed = False\<rparr>, closed = False\<rparr>, gro = gro_Init\<rparr>
     (\<lambda>_. 1)) = 0"
  by (simp add: linkEndpoint_Close_eq [OF queue_Close_open] linkEndpoint_Drain_eq DecRef_def
      fun_eq_iff)

lemma queue_Write_Some_err:
  "queue_Write qs h p = Inr (Some err, qs', h') \<Longrightarrow>
   qs' = qs \<and> h' = h \<and> (if closed qs then err = ErrClosedForSend else err = ErrNoBufferSpace)"
  by (auto simp: queue_Write_def Let_def DecRef_IncRef split: sum.splits option.splits if_splits)

lemma WritePackets_loop_Some_err:
  "WritePackets_loop l h n pkts = Inr ((k, Some e), l', h') \<Longrightarrow>
   n = 0 \<and> k = 0 \<and> e = ErrClosedForSend \<and> closed (q l) \<and> pkts \<noteq> [] \<and> l' = l \<and> h' = h"
proof (induction pkts arbitrary: l h n)
  case Nil
  then show ?case by simp
next
  case (Cons p ps)
  show ?case
  proof (cases "closed (q l)")
    case True
    with Cons.prems show ?thesis
      by (auto simp: queue_Write_closed split: if_splits)
  next
    case False
    show ?thesis
    proof (cases "queue_Write (q l) h p")
      case (Inl x)
      with Cons.prems show ?thesis by simp
    next
      case (Inr res)
      obtain r q' h1 where res: "res = (r, q', h1)" by (cases res)
      show ?thesis
      proof (cases r)
        case None
        with Cons.prems Inr res
        have "WritePackets_loop (l\<lparr>q := q'\<rparr>) h1 (n + 1) ps = Inr ((k, Some e), l', h')"
          by simp
        from Cons.IH [OF this] show ?thesis by simp
      next
        case (Some err)
        with Inr res False queue_Write_Some_err [of "q l" h p err q' h1]
        have "err = ErrNoBufferSpace" by simp
        with Cons.prems Inr res Some show ?thesis by simp
      qed
    qed
  qed
qed

text \<open>
  C2 (amended). When the first packet of a batch meets a full, open queue,
  \<^verbatim>\<open>WritePackets\<close> returns zero written and a nil error, and nothing changes.
  When the queue has room for \<open>k \<ge> 1\<close> packets and the batch is longer, the call
  stops at the first packet that does not fit and returns \<open>k\<close> with a nil error.
  When the queue is closed at the first packet the call returns zero and
  \<^verbatim>\<open>ErrClosedForSend\<close>. A non-nil error is returned in no other case.
\<close>

theorem WritePackets_backpressure:
  "(\<not> closed (q l) \<and> \<not> ch_closed (c (q l)) \<and> ch_cap (c (q l)) \<le> length (ch_buf (c (q l))) \<longrightarrow>
      linkEndpoint_WritePackets l h (pkt # pkts) = Inr ((0, None), l, h))
   \<and> (\<not> closed (q l) \<and> \<not> ch_closed (c (q l)) \<and> length (ch_buf (c (q l))) < ch_cap (c (q l))
        \<and> ch_cap (c (q l)) - length (ch_buf (c (q l))) < length pkts \<longrightarrow>
      linkEndpoint_WritePackets l h pkts =
        Inr ((ch_cap (c (q l)) - length (ch_buf (c (q l))), None),
             l\<lparr>q := (q l)\<lparr>c := (c (q l))\<lparr>ch_buf := ch_buf (c (q l)) @
                take (ch_cap (c (q l)) - length (ch_buf (c (q l)))) pkts\<rparr>\<rparr>\<rparr>,
             foldl IncRef h (take (ch_cap (c (q l)) - length (ch_buf (c (q l)))) pkts)))
   \<and> (closed (q l) \<longrightarrow>
      linkEndpoint_WritePackets l h (pkt # pkts) = Inr ((0, Some ErrClosedForSend), l, h))
   \<and> (linkEndpoint_WritePackets l h pkts = Inr ((k, Some e), l', h') \<longrightarrow>
        k = 0 \<and> e = ErrClosedForSend \<and> closed (q l) \<and> pkts \<noteq> [] \<and> l' = l \<and> h' = h)"
proof (intro conjI impI)
  assume a: "\<not> closed (q l) \<and> \<not> ch_closed (c (q l)) \<and> ch_cap (c (q l)) \<le> length (ch_buf (c (q l)))"
  then show "linkEndpoint_WritePackets l h (pkt # pkts) = Inr ((0, None), l, h)"
    by (simp add: linkEndpoint_WritePackets_def queue_Write_full)
next
  assume a: "\<not> closed (q l) \<and> \<not> ch_closed (c (q l)) \<and> length (ch_buf (c (q l))) < ch_cap (c (q l))
        \<and> ch_cap (c (q l)) - length (ch_buf (c (q l))) < length pkts"
  then show "linkEndpoint_WritePackets l h pkts =
        Inr ((ch_cap (c (q l)) - length (ch_buf (c (q l))), None),
             l\<lparr>q := (q l)\<lparr>c := (c (q l))\<lparr>ch_buf := ch_buf (c (q l)) @
                take (ch_cap (c (q l)) - length (ch_buf (c (q l)))) pkts\<rparr>\<rparr>\<rparr>,
             foldl IncRef h (take (ch_cap (c (q l)) - length (ch_buf (c (q l)))) pkts))"
    by (simp add: linkEndpoint_WritePackets_def WritePackets_loop_open min_def)
next
  assume "closed (q l)"
  then show "linkEndpoint_WritePackets l h (pkt # pkts) = Inr ((0, Some ErrClosedForSend), l, h)"
    by (simp add: linkEndpoint_WritePackets_def queue_Write_closed)
next
  assume "linkEndpoint_WritePackets l h pkts = Inr ((k, Some e), l', h')"
  then have *: "(0::nat) = 0 \<and> k = 0 \<and> e = ErrClosedForSend \<and> closed (q l) \<and> pkts \<noteq> [] \<and> l' = l \<and> h' = h"
    unfolding linkEndpoint_WritePackets_def by (rule WritePackets_loop_Some_err)
  from * show "k = 0" by simp
  from * show "e = ErrClosedForSend" by simp
  from * show "closed (q l)" by simp
  from * show "pkts \<noteq> []" by simp
  from * show "l' = l" by simp
  from * show "h' = h" by simp
qed

theorem WritePackets_backpressure_witness:
  "linkEndpoint_WritePackets
     \<lparr>SupportedGSOKind = GSONotSupported, dispatcher = None, linkAddr = [], mtu = 1280,
      q = \<lparr>c = \<lparr>ch_buf = [7, 8], ch_cap = 2, ch_closed = False\<rparr>, closed = False\<rparr>, gro = gro_Init\<rparr>
     (\<lambda>_. 1) [9, 10]
   = Inr ((0, None),
     \<lparr>SupportedGSOKind = GSONotSupported, dispatcher = None, linkAddr = [], mtu = 1280,
      q = \<lparr>c = \<lparr>ch_buf = [7, 8], ch_cap = 2, ch_closed = False\<rparr>, closed = False\<rparr>, gro = gro_Init\<rparr>,
     (\<lambda>_. 1))
   \<and> linkEndpoint_WritePackets
     \<lparr>SupportedGSOKind = GSONotSupported, dispatcher = None, linkAddr = [], mtu = 1280,
      q = \<lparr>c = \<lparr>ch_buf = [7], ch_cap = 2, ch_closed = False\<rparr>, closed = False\<rparr>, gro = gro_Init\<rparr>
     (\<lambda>_. 1) [9, 10]
   = Inr ((1, None),
     \<lparr>SupportedGSOKind = GSONotSupported, dispatcher = None, linkAddr = [], mtu = 1280,
      q = \<lparr>c = \<lparr>ch_buf = [7, 9], ch_cap = 2, ch_closed = False\<rparr>, closed = False\<rparr>, gro = gro_Init\<rparr>,
     IncRef (\<lambda>_. 1) 9)
   \<and> linkEndpoint_WritePackets
     \<lparr>SupportedGSOKind = GSONotSupported, dispatcher = None, linkAddr = [], mtu = 1280,
      q = \<lparr>c = \<lparr>ch_buf = [7], ch_cap = 2, ch_closed = True\<rparr>, closed = True\<rparr>, gro = gro_Init\<rparr>
     (\<lambda>_. 1) [9, 10]
   = Inr ((0, Some ErrClosedForSend),
     \<lparr>SupportedGSOKind = GSONotSupported, dispatcher = None, linkAddr = [], mtu = 1280,
      q = \<lparr>c = \<lparr>ch_buf = [7], ch_cap = 2, ch_closed = True\<rparr>, closed = True\<rparr>, gro = gro_Init\<rparr>,
     (\<lambda>_. 1))"
proof -
  let ?full = "\<lparr>SupportedGSOKind = GSONotSupported, dispatcher = None, linkAddr = [], mtu = 1280,
      q = \<lparr>c = \<lparr>ch_buf = [7, 8], ch_cap = 2, ch_closed = False\<rparr>, closed = False\<rparr>, gro = gro_Init\<rparr>"
  let ?room = "\<lparr>SupportedGSOKind = GSONotSupported, dispatcher = None, linkAddr = [], mtu = 1280,
      q = \<lparr>c = \<lparr>ch_buf = [7], ch_cap = 2, ch_closed = False\<rparr>, closed = False\<rparr>, gro = gro_Init\<rparr>"
  let ?shut = "\<lparr>SupportedGSOKind = GSONotSupported, dispatcher = None, linkAddr = [], mtu = 1280,
      q = \<lparr>c = \<lparr>ch_buf = [7], ch_cap = 2, ch_closed = True\<rparr>, closed = True\<rparr>, gro = gro_Init\<rparr>"
  let ?h = "\<lambda>_::pkt. 1::int"
  have 1: "linkEndpoint_WritePackets ?full ?h [9, 10] = Inr ((0, None), ?full, ?h)"
    using WritePackets_backpressure [where l = ?full and h = ?h and pkt = 9 and pkts = "[10]"] by simp
  have 2: "linkEndpoint_WritePackets ?room ?h [9, 10] =
      Inr ((1, None),
        \<lparr>SupportedGSOKind = GSONotSupported, dispatcher = None, linkAddr = [], mtu = 1280,
         q = \<lparr>c = \<lparr>ch_buf = [7, 9], ch_cap = 2, ch_closed = False\<rparr>, closed = False\<rparr>,
         gro = gro_Init\<rparr>, IncRef ?h 9)"
    using WritePackets_backpressure [where l = ?room and h = ?h and pkts = "[9, 10]"] by simp
  have 3: "linkEndpoint_WritePackets ?shut ?h [9, 10] = Inr ((0, Some ErrClosedForSend), ?shut, ?h)"
    using WritePackets_backpressure [where l = ?shut and h = ?h and pkt = 9 and pkts = "[10]"]
    by simp
  show ?thesis
    using 1 2 3
      WritePackets_backpressure
        [where l = ?shut and h = ?h and pkts = "[9, 10]" and k = 0 and e = ErrClosedForSend
          and l' = ?shut and h' = ?h]
    by simp
qed

text \<open>
  C2 as stated fails in its last part: with a full, open queue (capacity 1, holding
  packet 7) and the batch \<open>[9]\<close>, \<^verbatim>\<open>WritePackets\<close> writes no packet and
  returns a nil error.
\<close>

theorem WritePackets_zero_written_no_error:
  "linkEndpoint_WritePackets
     \<lparr>SupportedGSOKind = GSONotSupported, dispatcher = None, linkAddr = [], mtu = 1280,
      q = \<lparr>c = \<lparr>ch_buf = [7], ch_cap = 1, ch_closed = False\<rparr>, closed = False\<rparr>, gro = gro_Init\<rparr>
     (\<lambda>_. 1) [9]
   = Inr ((0, None),
     \<lparr>SupportedGSOKind = GSONotSupported, dispatcher = None, linkAddr = [], mtu = 1280,
      q = \<lparr>c = \<lparr>ch_buf = [7], ch_cap = 1, ch_closed = False\<rparr>, closed = False\<rparr>, gro = gro_Init\<rparr>,
     (\<lambda>_. 1))"
  by (simp add: linkEndpoint_WritePackets_def queue_Write_full)


lemma WritePackets_loop_conc_False:
  "WritePackets_loop_conc l h n (map (Pair False) pkts) = WritePackets_loop l h n pkts"
  by (induction pkts arbitrary: l h n) (auto split: sum.splits option.splits)

lemma queue_Close_buf: "queue_Close qs = Inr qs' \<Longrightarrow> ch_buf (c qs') = ch_buf (c qs)"
  by (auto simp: queue_Close_def close_chan_def split: if_splits)

lemma WritePackets_loop_conc_Some_err:
  "WritePackets_loop_conc l h n bps = Inr ((k, Some e), l', h') \<Longrightarrow>
   n = 0 \<and> k = 0 \<and> e = ErrClosedForSend \<and> closed (q l') \<and> bps \<noteq> []
     \<and> ch_buf (c (q l')) = ch_buf (c (q l)) \<and> h' = h"
proof (induction bps arbitrary: l h n)
  case Nil
  then show ?case by simp
next
  case (Cons bp bps)
  obtain cl p where bp: "bp = (cl, p)" by (cases bp)
  from Cons.prems obtain q0 where q0: "(if cl then queue_Close (q l) else Inr (q l)) = Inr q0"
    unfolding bp by (cases "if cl then queue_Close (q l) else Inr (q l)") auto
  then have buf0: "ch_buf (c q0) = ch_buf (c (q l))"
    by (auto simp: queue_Close_buf split: if_splits)
  show ?case
  proof (cases "closed q0")
    case True
    with Cons.prems q0 buf0 show ?thesis
      by (auto simp: bp queue_Write_closed split: if_splits)
  next
    case False
    show ?thesis
    proof (cases "queue_Write q0 h p")
      case (Inl x)
      with Cons.prems q0 show ?thesis by (simp add: bp)
    next
      case (Inr res)
      obtain r q' h1 where res: "res = (r, q', h1)" by (cases res)
      show ?thesis
      proof (cases r)
        case None
        with Cons.prems q0 Inr res
        have "WritePackets_loop_conc (l\<lparr>q := q'\<rparr>) h1 (n + 1) bps = Inr ((k, Some e), l', h')"
          by (simp add: bp)
        from Cons.IH [OF this] show ?thesis by simp
      next
        case (Some err)
        with Inr res False queue_Write_Some_err [of q0 h p err q' h1]
        have "err = ErrNoBufferSpace" by simp
        with Cons.prems q0 Inr res Some show ?thesis by (simp add: bp)
      qed
    qed
  qed
qed

lemma WritePackets_loop_conc_room:
  "\<not> closed (q l) \<Longrightarrow> \<not> ch_closed (c (q l)) \<Longrightarrow>
   length (ch_buf (c (q l))) + length ps \<le> ch_cap (c (q l)) \<Longrightarrow>
   WritePackets_loop_conc l h n (map (Pair False) ps @ rest) =
     WritePackets_loop_conc (l\<lparr>q := (q l)\<lparr>c := (c (q l))\<lparr>ch_buf := ch_buf (c (q l)) @ ps\<rparr>\<rparr>\<rparr>)
       (foldl IncRef h ps) (n + length ps) rest"
proof (induction ps arbitrary: l h n)
  case Nil
  then show ?case by simp
next
  case (Cons p ps)
  let ?l1 = "l\<lparr>q := (q l)\<lparr>c := (c (q l))\<lparr>ch_buf := ch_buf (c (q l)) @ [p]\<rparr>\<rparr>\<rparr>"
  have w: "queue_Write (q l) h p = Inr (None, q ?l1, IncRef h p)"
    using Cons.prems by (simp add: queue_Write_room)
  have "WritePackets_loop_conc ?l1 (IncRef h p) (n + 1) (map (Pair False) ps @ rest) =
     WritePackets_loop_conc (?l1\<lparr>q := (q ?l1)\<lparr>c := (c (q ?l1))\<lparr>ch_buf := ch_buf (c (q ?l1)) @ ps\<rparr>\<rparr>\<rparr>)
       (foldl IncRef (IncRef h p) ps) (n + 1 + length ps) rest"
    using Cons.prems by (intro Cons.IH) simp_all
  with w show ?case by simp
qed

text \<open>
  C10. \<^verbatim>\<open>WritePackets\<close> returns a non-nil error only with zero packets written,
  and then nothing was enqueued and no reference count changed; this holds as well
  when \<^verbatim>\<open>q.Close()\<close> calls of another goroutine run between the rounds. Once a
  packet has been written (\<open>0 < n\<close>) the loop never returns an error: a
  \<^verbatim>\<open>Write\<close> that fails, whatever its error, ends the loop with the count \<open>n\<close>
  and a nil error. In particular, when the first packets \<open>ps\<close> of a batch are
  written and the queue is closed just before the next packet, the call returns
  \<open>length ps\<close> and a nil error.
\<close>

theorem WritePackets_error_only_when_none_written:
  "(linkEndpoint_WritePackets l h pkts = Inr ((k, Some e), l', h') \<longrightarrow> k = 0 \<and> l' = l \<and> h' = h)
   \<and> (WritePackets_loop_conc l h 0 bps = Inr ((k, Some e), l', h') \<longrightarrow>
        k = 0 \<and> ch_buf (c (q l')) = ch_buf (c (q l)) \<and> h' = h)
   \<and> (0 < n \<and> WritePackets_loop_conc l h n bps = Inr ((k, r), l', h') \<longrightarrow> r = None)
   \<and> (0 < n \<and> (if cl then queue_Close (q l) else Inr (q l)) = Inr q0
        \<and> queue_Write q0 h pkt = Inr (Some err, q1, h1) \<longrightarrow>
      WritePackets_loop_conc l h n ((cl, pkt) # bps) = Inr ((n, None), l\<lparr>q := q1\<rparr>, h1))
   \<and> (\<not> closed (q l) \<and> \<not> ch_closed (c (q l)) \<and> ps \<noteq> []
        \<and> length (ch_buf (c (q l))) + length ps \<le> ch_cap (c (q l)) \<longrightarrow>
      WritePackets_loop_conc l h 0 (map (Pair False) ps @ (True, p) # rest) =
        Inr ((length ps, None),
             l\<lparr>q := \<lparr>c = (c (q l))\<lparr>ch_buf := ch_buf (c (q l)) @ ps, ch_closed := True\<rparr>,
                     closed = True\<rparr>\<rparr>,
             foldl IncRef h ps))"
proof (intro conjI impI)
  assume "linkEndpoint_WritePackets l h pkts = Inr ((k, Some e), l', h')"
  then have *: "(0::nat) = 0 \<and> k = 0 \<and> e = ErrClosedForSend \<and> closed (q l) \<and> pkts \<noteq> [] \<and> l' = l \<and> h' = h"
    unfolding linkEndpoint_WritePackets_def by (rule WritePackets_loop_Some_err)
  from * show "k = 0" by simp
  from * show "l' = l" by simp
  from * show "h' = h" by simp
next
  assume "WritePackets_loop_conc l h 0 bps = Inr ((k, Some e), l', h')"
  from WritePackets_loop_conc_Some_err [OF this]
  show "k = 0" and "ch_buf (c (q l')) = ch_buf (c (q l))" and "h' = h"
    by simp_all
next
  assume a: "0 < n \<and> WritePackets_loop_conc l h n bps = Inr ((k, r), l', h')"
  show "r = None"
  proof (cases r)
    case None
    then show ?thesis .
  next
    case (Some e)
    with a WritePackets_loop_conc_Some_err [of l h n bps k e l' h'] show ?thesis
      by simp
  qed
next
  assume "0 < n \<and> (if cl then queue_Close (q l) else Inr (q l)) = Inr q0
        \<and> queue_Write q0 h pkt = Inr (Some err, q1, h1)"
  then show "WritePackets_loop_conc l h n ((cl, pkt) # bps) = Inr ((n, None), l\<lparr>q := q1\<rparr>, h1)"
    by simp
next
  assume a: "\<not> closed (q l) \<and> \<not> ch_closed (c (q l)) \<and> ps \<noteq> []
        \<and> length (ch_buf (c (q l))) + length ps \<le> ch_cap (c (q l))"
  let ?l1 = "l\<lparr>q := (q l)\<lparr>c := (c (q l))\<lparr>ch_buf := ch_buf (c (q l)) @ ps\<rparr>\<rparr>\<rparr>"
  have 1: "WritePackets_loop_conc l h 0 (map (Pair False) ps @ (True, p) # rest) =
     WritePackets_loop_conc ?l1 (foldl IncRef h ps) (0 + length ps) ((True, p) # rest)"
    using a by (intro WritePackets_loop_conc_room) simp_all
  have 2: "queue_Close ((q l)\<lparr>c := (c (q l))\<lparr>ch_buf := ch_buf (c (q l)) @ ps\<rparr>\<rparr>) =
     Inr \<lparr>c = (c (q l))\<lparr>ch_buf := ch_buf (c (q l)) @ ps, ch_closed := True\<rparr>, closed = True\<rparr>"
    using a by (cases "q l", cases "c (q l)") (simp add: queue_Close_def close_chan_def)
  show "WritePackets_loop_conc l h 0 (map (Pair False) ps @ (True, p) # rest) =
        Inr ((length ps, None),
             l\<lparr>q := \<lparr>c = (c (q l))\<lparr>ch_buf := ch_buf (c (q l)) @ ps, ch_closed := True\<rparr>,
                     closed = True\<rparr>\<rparr>,
             foldl IncRef h ps)"
    using a by (simp add: 1 2 queue_Write_closed)
qed

theorem WritePackets_error_only_when_none_written_witness:
  "linkEndpoint_WritePackets
     \<lparr>SupportedGSOKind = GSONotSupported, dispatcher = None, linkAddr = [], mtu = 1280,
      q = \<lparr>c = \<lparr>ch_buf = [7], ch_cap = 4, ch_closed = True\<rparr>, closed = True\<rparr>, gro = gro_Init\<rparr>
     (\<lambda>_. 1) [9, 10]
   = Inr ((0, Some ErrClosedForSend),
     \<lparr>SupportedGSOKind = GSONotSupported, dispatcher = None, linkAddr = [], mtu = 1280,
      q = \<lparr>c = \<lparr>ch_buf = [7], ch_cap = 4, ch_closed = True\<rparr>, closed = True\<rparr>, gro = gro_Init\<rparr>,
     (\<lambda>_. 1))
   \<and> WritePackets_loop_conc
     \<lparr>SupportedGSOKind = GSONotSupported, dispatcher = None, linkAddr = [], mtu = 1280,
      q = \<lparr>c = \<lparr>ch_buf = [7], ch_cap = 4, ch_closed = False\<rparr>, closed = False\<rparr>, gro = gro_Init\<rparr>
     (\<lambda>_. 1) 0 [(True, 9), (False, 10)]
   = Inr ((0, Some ErrClosedForSend),
     \<lparr>SupportedGSOKind = GSONotSupported, dispatcher = None, linkAddr = [], mtu = 1280,
      q = \<lparr>c = \<lparr>ch_buf = [7], ch_cap = 4, ch_closed = True\<rparr>, closed = True\<rparr>, gro = gro_Init\<rparr>,
     (\<lambda>_. 1))
   \<and> WritePackets_loop_conc
     \<lparr>SupportedGSOKind = GSONotSupported, dispatcher = None, linkAddr = [], mtu = 1280,
      q = \<lparr>c = \<lparr>ch_buf = [7], ch_cap = 4, ch_closed = False\<rparr>, closed = False\<rparr>, gro = gro_Init\<rparr>
     (\<lambda>_. 1) 0 [(False, 9), (False, 10), (True, 11), (False, 12)]
   = Inr ((2, None),
     \<lparr>SupportedGSOKind = GSONotSupported, dispatcher = None, linkAddr = [], mtu = 1280,
      q = \<lparr>c = \<lparr>ch_buf = [7, 9, 10], ch_cap = 4, ch_closed = True\<rparr>, closed = True\<rparr>, gro = gro_Init\<rparr>,
     IncRef (IncRef (\<lambda>_. 1) 9) 10)
   \<and> WritePackets_loop_conc
     \<lparr>SupportedGSOKind = GSONotSupported, dispatcher = None, linkAddr = [], mtu = 1280,
      q = \<lparr>c = \<lparr>ch_buf = [7, 9], ch_cap = 4, ch_closed = False\<rparr>, closed = False\<rparr>, gro = gro_Init\<rparr>
     (\<lambda>_. 1) 1 [(True, 11)]
   = Inr ((1, None),
     \<lparr>SupportedGSOKind = GSONotSupported, dispatcher = None, linkAddr = [], mtu = 1280,
      q = \<lparr>c = \<lparr>ch_buf = [7, 9], ch_cap = 4, ch_closed = True\<rparr>, closed = True\<rparr>, gro = gro_Init\<rparr>,
     (\<lambda>_. 1))"
proof -
  let ?shut = "\<lparr>SupportedGSOKind = GSONotSupported, dispatcher = None, linkAddr = [], mtu = 1280,
      q = \<lparr>c = \<lparr>ch_buf = [7], ch_cap = 4, ch_closed = True\<rparr>, closed = True\<rparr>, gro = gro_Init\<rparr>"
  let ?open = "\<lparr>SupportedGSOKind = GSONotSupported, dispatcher = None, linkAddr = [], mtu = 1280,
      q = \<lparr>c = \<lparr>ch_buf = [7], ch_cap = 4, ch_closed = False\<rparr>, closed = False\<rparr>, gro = gro_Init\<rparr>"
  let ?mid = "\<lparr>SupportedGSOKind = GSONotSupported, dispatcher = None, linkAddr = [], mtu = 1280,
      q = \<lparr>c = \<lparr>ch_buf = [7, 9], ch_cap = 4, ch_closed = False\<rparr>, closed = False\<rparr>, gro = gro_Init\<rparr>"
  let ?mid' = "\<lparr>SupportedGSOKind = GSONotSupported, dispatcher = None, linkAddr = [], mtu = 1280,
      q = \<lparr>c = \<lparr>ch_buf = [7, 9], ch_cap = 4, ch_closed = True\<rparr>, closed = True\<rparr>, gro = gro_Init\<rparr>"
  let ?h = "\<lambda>_::pkt. 1::int"
  have a: "linkEndpoint_WritePackets ?shut ?h [9, 10] = Inr ((0, Some ErrClosedForSend), ?shut, ?h)"
    by (simp add: linkEndpoint_WritePackets_def queue_Write_closed)
  have b: "WritePackets_loop_conc ?open ?h 0 [(True, 9), (False, 10)]
      = Inr ((0, Some ErrClosedForSend), ?shut, ?h)"
    by (simp add: queue_Close_def close_chan_def queue_Write_closed)
  have c: "WritePackets_loop_conc ?mid ?h 1 [(True, 11)] = Inr ((1, None), ?mid', ?h)"
    by (simp add: queue_Close_def close_chan_def queue_Write_closed)
  show ?thesis
    using a b c
      WritePackets_error_only_when_none_written
        [where l = ?shut and h = ?h and pkts = "[9, 10]" and k = 0
          and e = ErrClosedForSend and l' = ?shut and h' = ?h]
      WritePackets_error_only_when_none_written
        [where l = ?open and h = ?h and bps = "[(True, 9), (False, 10)]" and k = 0
          and e = ErrClosedForSend and l' = ?shut and h' = ?h]
      WritePackets_error_only_when_none_written
        [where l = ?mid and h = ?h and n = 1 and bps = "[(True, 11)]" and k = 1
          and r = None and l' = ?mid' and h' = ?h and cl = True and pkt = 11
          and ?q0.0 = "q ?mid'" and err = ErrClosedForSend and ?q1.0 = "q ?mid'" and ?h1.0 = ?h]
      WritePackets_error_only_when_none_written
        [where l = ?open and h = ?h and ps = "[9, 10]" and p = 11 and rest = "[(False, 12)]"]
    by (simp add: queue_Close_def close_chan_def queue_Write_closed)
qed

text \<open>
  C6 (amended). \<^verbatim>\<open>ReadContext\<close> with an already cancelled context returns at
  once, whatever the runtime picks. It returns either nil, leaving the queue as it
  was, or the packet at the head of the buffer, removing it. With an empty buffer it
  returns nil. With a non-empty buffer both outcomes occur, depending on the
  runtime's pick among the two ready cases.
\<close>

theorem ReadContext_cancelled:
  "(\<exists>r. queue_ReadContext qs True pick = Some r)
   \<and> (queue_ReadContext qs True pick = Some (None, qs)
      \<or> (\<exists>p ps. ch_buf (c qs) = p # ps \<and>
            queue_ReadContext qs True pick = Some (Some p, qs\<lparr>c := (c qs)\<lparr>ch_buf := ps\<rparr>\<rparr>)))
   \<and> (ch_buf (c qs) = [] \<longrightarrow> queue_ReadContext qs True pick = Some (None, qs))
   \<and> (ch_buf (c qs) \<noteq> [] \<longrightarrow>
        queue_ReadContext qs True 0 = Some (Some (hd (ch_buf (c qs))), qs\<lparr>c := (c qs)\<lparr>ch_buf := tl (ch_buf (c qs))\<rparr>\<rparr>)
        \<and> queue_ReadContext qs True 1 = Some (None, qs))"
  by (cases "ch_buf (c qs)"; cases "ch_closed (c qs)"; cases "even pick")
    (auto simp: queue_ReadContext_def ReadContext_ready_def recv_nb_def Let_def
      split: list.splits select_case.splits)

theorem ReadContext_cancelled_witness:
  "queue_ReadContext \<lparr>c = \<lparr>ch_buf = [], ch_cap = 1, ch_closed = False\<rparr>, closed = False\<rparr> True 5
     = Some (None, \<lparr>c = \<lparr>ch_buf = [], ch_cap = 1, ch_closed = False\<rparr>, closed = False\<rparr>)
   \<and> queue_ReadContext \<lparr>c = \<lparr>ch_buf = [7, 8], ch_cap = 2, ch_closed = False\<rparr>, closed = False\<rparr> True 0
     = Some (Some 7, \<lparr>c = \<lparr>ch_buf = [8], ch_cap = 2, ch_closed = False\<rparr>, closed = False\<rparr>)
   \<and> queue_ReadContext \<lparr>c = \<lparr>ch_buf = [7, 8], ch_cap = 2, ch_closed = False\<rparr>, closed = False\<rparr> True 1
     = Some (None, \<lparr>c = \<lparr>ch_buf = [7, 8], ch_cap = 2, ch_closed = False\<rparr>, closed = False\<rparr>)"
  using ReadContext_cancelled
      [of "\<lparr>c = \<lparr>ch_buf = [], ch_cap = 1, ch_closed = False\<rparr>, closed = False\<rparr>" 5]
    ReadContext_cancelled
      [of "\<lparr>c = \<lparr>ch_buf = [7, 8], ch_cap = 2, ch_closed = False\<rparr>, closed = False\<rparr>" 0]
  by simp

text \<open>
  C6 as stated fails: from one queue state (packet 7 buffered) and the same cancelled
  context, one run of \<^verbatim>\<open>ReadContext\<close> returns packet 7 and another returns nil.
\<close>

theorem queue_ReadContext_two_outcomes:
  "queue_ReadContext \<lparr>c = \<lparr>ch_buf = [7], ch_cap = 1, ch_closed = False\<rparr>, closed = False\<rparr> True 0
     = Some (Some 7, \<lparr>c = \<lparr>ch_buf = [], ch_cap = 1, ch_closed = False\<rparr>, closed = False\<rparr>)
   \<and> queue_ReadContext \<lparr>c = \<lparr>ch_buf = [7], ch_cap = 1, ch_closed = False\<rparr>, closed = False\<rparr> True 1
     = Some (None, \<lparr>c = \<lparr>ch_buf = [7], ch_cap = 1, ch_closed = False\<rparr>, closed = False\<rparr>)"
  by (simp add: queue_ReadContext_def ReadContext_ready_def recv_nb_def)

section \<open>Properties of receive checksum offload\<close>

lemma low_nibble_le: "unat ((b0 :: byte) AND 0x0F) \<le> 15"
  using word_and_le1 [of b0 15] by (simp add: word_le_nat_alt)

lemma csumStart_eq: "unat (((b0 :: byte) AND 0x0F) * 4) = 4 * unat (b0 AND 0x0F)"
proof -
  have "unat ((b0 AND 0x0F) * 4) = (unat (b0 AND 0x0F) * unat (4 :: byte)) mod 2 ^ 8"
    by (simp add: unat_word_ariths)
  also have "\<dots> = 4 * unat (b0 AND 0x0F)"
    using low_nibble_le [of b0] by simp
  finally show ?thesis .
qed

lemma rxChecksumOffload_switch_spec:
  "rxChecksumOffload_switch buf v =
     Inr (if (if v = 4 then spec_ipv4_ok buf else if v = 6 then spec_ipv6_ok buf else True)
          then Some (spec_protocol_number v, spec_transport_start buf v) else None)"
  by (cases buf)
    (auto simp: rxChecksumOffload_switch_def spec_ipv4_ok_def spec_ipv6_ok_def
      spec_protocol_number_def spec_transport_start_def spec_header_length_def
      go_index_def go_slice_to_def csumStart_eq Let_def)

lemma spec_transport_start_le:
  "(if v = 4 then spec_ipv4_ok buf else if v = 6 then spec_ipv6_ok buf else True) \<Longrightarrow>
   spec_transport_start buf v \<le> length buf"
  by (auto simp: spec_transport_start_def spec_ipv4_ok_def spec_ipv6_ok_def split: if_splits)

lemma rxChecksumOffload_transport_spec:
  "start \<le> length buf \<Longrightarrow> start = spec_transport_start buf (IPVersion p) \<Longrightarrow>
   rxChecksumOffload_transport buf p start =
     Inr (if IPProto p = ipproto_TCP \<or> IPProto p = ipproto_UDP then spec_transport_ok buf p else True)"
  by (auto simp: rxChecksumOffload_transport_def spec_transport_ok_def go_slice_from_def Let_def
      of_nat_diff)


lemma rxChecksumOffload_eq:
  "rxChecksumOffload m p =
     (if (if IPVersion p = 4 then spec_ipv4_ok (cells m (Buffer p))
          else if IPVersion p = 6 then spec_ipv6_ok (cells m (Buffer p)) else True)
         \<and> (if IPProto p = ipproto_TCP \<or> IPProto p = ipproto_UDP
            then spec_transport_ok (cells m (Buffer p)) p else True)
      then Inr (Some \<lparr>Payload = brk m,
                      NetworkProtocolNumber = spec_protocol_number (IPVersion p),
                      RXChecksumValidated = True\<rparr>,
                m\<lparr>cells := (cells m)(brk m := cells m (Buffer p)), brk := brk m + 1\<rparr>)
      else Inr (None, m))"
proof -
  let ?buf = "cells m (Buffer p)"
  define ipok where "ipok = (if IPVersion p = 4 then spec_ipv4_ok ?buf
       else if IPVersion p = 6 then spec_ipv6_ok ?buf else True)"
  define trok where "trok = (if IPProto p = ipproto_TCP \<or> IPProto p = ipproto_UDP
       then spec_transport_ok ?buf p else True)"
  define start where "start = spec_transport_start ?buf (IPVersion p)"
  have sw: "rxChecksumOffload_switch ?buf (IPVersion p) =
      Inr (if ipok then Some (spec_protocol_number (IPVersion p), start) else None)"
    by (simp only: rxChecksumOffload_switch_spec ipok_def start_def)
  have "rxChecksumOffload m p =
     (if ipok \<and> trok
      then Inr (Some \<lparr>Payload = brk m,
                      NetworkProtocolNumber = spec_protocol_number (IPVersion p),
                      RXChecksumValidated = True\<rparr>,
                m\<lparr>cells := (cells m)(brk m := ?buf), brk := brk m + 1\<rparr>)
      else Inr (None, m))"
  proof (cases ipok)
    case True
    then have "start \<le> length ?buf"
      unfolding ipok_def start_def by (rule spec_transport_start_le)
    then have tr: "rxChecksumOffload_transport ?buf p start = Inr trok"
      unfolding trok_def by (rule rxChecksumOffload_transport_spec) (simp only: start_def)
    show ?thesis
      using True by (simp add: rxChecksumOffload_def Let_def sw tr bytes_Clone_def)
  next
    case False
    then show ?thesis
      by (simp add: rxChecksumOffload_def Let_def sw)
  qed
  then show ?thesis
    by (simp only: ipok_def trok_def)
qed

lemma udp4_example_valid:
  "Validate_spec udp4_example
     \<lparr>Buffer = a, IPVersion = 4, IPProto = 0x11, Src = [10, 0, 0, 1], Dst = [10, 0, 0, 2]\<rparr>"
  by (simp add: Validate_spec_def udp4_example_def spec_ipv4_ok_def spec_header_length_def
      spec_transport_ok_def spec_transport_start_def PseudoHeaderChecksum_def
      add1c_def be16_def ipproto_TCP_def ipproto_UDP_def)

lemma udp4_example_bad_header:
  "\<not> Validate_spec (udp4_example[11 := 0xce])
     \<lparr>Buffer = a, IPVersion = 4, IPProto = 0x11, Src = [10, 0, 0, 1], Dst = [10, 0, 0, 2]\<rparr>"
  by (simp add: Validate_spec_def udp4_example_def spec_ipv4_ok_def spec_header_length_def
      add1c_def be16_def)

lemma udp4_example_bad_udp:
  "\<not> Validate_spec (udp4_example[27 := 0xd5])
     \<lparr>Buffer = a, IPVersion = 4, IPProto = 0x11, Src = [10, 0, 0, 1], Dst = [10, 0, 0, 2]\<rparr>"
  by (simp add: Validate_spec_def udp4_example_def spec_ipv4_ok_def spec_header_length_def
      spec_transport_ok_def spec_transport_start_def PseudoHeaderChecksum_def
      add1c_def be16_def ipproto_TCP_def ipproto_UDP_def)

text \<open>
  C1. \<^verbatim>\<open>rxChecksumOffload\<close> never panics and accepts a packet exactly when the
  specification's validator does. For IPv4 the header length is four times the low
  four bits of the first byte, and the packet is rejected when the buffer has fewer
  than 20 bytes, the header length is outside 20..60, the buffer is shorter than the
  header length, or the one's-complement sum over exactly that many bytes does not
  complement to zero. For IPv6 it is rejected when shorter than 40 bytes, and the
  transport checksum starts at byte 40. For TCP and UDP the pseudo-header checksum of
  source, destination, protocol and payload length, extended over the transport
  segment, must complement to zero. Every other packet is accepted.
\<close>

theorem rxChecksumOffload_refines_spec:
  "rxChecksumOffload m p =
     (if Validate_spec (cells m (Buffer p)) p
      then Inr (Some \<lparr>Payload = brk m,
                      NetworkProtocolNumber = spec_protocol_number (IPVersion p),
                      RXChecksumValidated = True\<rparr>,
                m\<lparr>cells := (cells m)(brk m := cells m (Buffer p)), brk := brk m + 1\<rparr>)
      else Inr (None, m))"
  by (simp only: rxChecksumOffload_eq Validate_spec_def)

theorem rxChecksumOffload_refines_spec_witness:
  "rxChecksumOffload \<lparr>cells = (\<lambda>_. [])(0 := udp4_example), brk = 1\<rparr>
     \<lparr>Buffer = 0, IPVersion = 4, IPProto = 0x11, Src = [10, 0, 0, 1], Dst = [10, 0, 0, 2]\<rparr>
   = Inr (Some \<lparr>Payload = 1, NetworkProtocolNumber = 0x0800, RXChecksumValidated = True\<rparr>,
          \<lparr>cells = (\<lambda>_. [])(0 := udp4_example, 1 := udp4_example), brk = 2\<rparr>)
   \<and> rxChecksumOffload \<lparr>cells = (\<lambda>_. [])(0 := udp4_example[11 := 0xce]), brk = 1\<rparr>
     \<lparr>Buffer = 0, IPVersion = 4, IPProto = 0x11, Src = [10, 0, 0, 1], Dst = [10, 0, 0, 2]\<rparr>
   = Inr (None, \<lparr>cells = (\<lambda>_. [])(0 := udp4_example[11 := 0xce]), brk = 1\<rparr>)
   \<and> rxChecksumOffload \<lparr>cells = (\<lambda>_. [])(0 := udp4_example[27 := 0xd5]), brk = 1\<rparr>
     \<lparr>Buffer = 0, IPVersion = 4, IPProto = 0x11, Src = [10, 0, 0, 1], Dst = [10, 0, 0, 2]\<rparr>
   = Inr (None, \<lparr>cells = (\<lambda>_. [])(0 := udp4_example[27 := 0xd5]), brk = 1\<rparr>)"
  using rxChecksumOffload_refines_spec
      [of "\<lparr>cells = (\<lambda>_. [])(0 := udp4_example), brk = 1\<rparr>"
        "\<lparr>Buffer = 0, IPVersion = 4, IPProto = 0x11, Src = [10, 0, 0, 1], Dst = [10, 0, 0, 2]\<rparr>"]
    rxChecksumOffload_refines_spec
      [of "\<lparr>cells = (\<lambda>_. [])(0 := udp4_example[11 := 0xce]), brk = 1\<rparr>"
        "\<lparr>Buffer = 0, IPVersion = 4, IPProto = 0x11, Src = [10, 0, 0, 1], Dst = [10, 0, 0, 2]\<rparr>"]
    rxChecksumOffload_refines_spec
      [of "\<lparr>cells = (\<lambda>_. [])(0 := udp4_example[27 := 0xd5]), brk = 1\<rparr>"
        "\<lparr>Buffer = 0, IPVersion = 4, IPProto = 0x11, Src = [10, 0, 0, 1], Dst = [10, 0, 0, 2]\<rparr>"]
    udp4_example_valid [of 0] udp4_example_bad_header [of 0] udp4_example_bad_udp [of 0]
  by (simp add: spec_protocol_number_def header_IPv4ProtocolNumber_def)

text \<open>
  C5. On every input, truncated or malformed ones included, \<^verbatim>\<open>rxChecksumOffload\<close>
  returns without a panic. It changes no byte of allocated memory, the input buffer
  included; a rejection leaves memory as it was. On acceptance the payload of the new
  packet buffer is a newly allocated array, so distinct from the input buffer, holding
  a copy of the input bytes; the buffer carries the network-protocol number of the IP
  version and the checksum-validated mark. An IPv4 packet of fewer than 20 bytes and an
  IPv6 packet of fewer than 40 bytes are rejected.
\<close>

theorem rxChecksumOffload_total_private_copy:
  "(\<exists>r m'. rxChecksumOffload m p = Inr (r, m')
      \<and> (\<forall>a. a < brk m \<longrightarrow> cells m' a = cells m a)
      \<and> (case r of
            None \<Rightarrow> m' = m
          | Some pb \<Rightarrow>
              Payload pb = brk m \<and> brk m' = brk m + 1
              \<and> cells m' (Payload pb) = cells m (Buffer p)
              \<and> (Buffer p < brk m \<longrightarrow> Payload pb \<noteq> Buffer p)
              \<and> RXChecksumValidated pb
              \<and> NetworkProtocolNumber pb = spec_protocol_number (IPVersion p)))
   \<and> (IPVersion p = 4 \<and> length (cells m (Buffer p)) < 20 \<longrightarrow> rxChecksumOffload m p = Inr (None, m))
   \<and> (IPVersion p = 6 \<and> length (cells m (Buffer p)) < 40 \<longrightarrow> rxChecksumOffload m p = Inr (None, m))"
  by (auto simp: rxChecksumOffload_eq spec_ipv4_ok_def spec_ipv6_ok_def)

theorem rxChecksumOffload_total_private_copy_witness:
  "rxChecksumOffload \<lparr>cells = (\<lambda>_. [])(0 := udp4_example, 1 := take 19 udp4_example), brk = 2\<rparr>
     \<lparr>Buffer = 0, IPVersion = 4, IPProto = 0x11, Src = [10, 0, 0, 1], Dst = [10, 0, 0, 2]\<rparr>
   = Inr (Some \<lparr>Payload = 2, NetworkProtocolNumber = 0x0800, RXChecksumValidated = True\<rparr>,
          \<lparr>cells = (\<lambda>_. [])(0 := udp4_example, 1 := take 19 udp4_example, 2 := udp4_example),
           brk = 3\<rparr>)
   \<and> rxChecksumOffload \<lparr>cells = (\<lambda>_. [])(0 := udp4_example, 1 := take 19 udp4_example), brk = 2\<rparr>
     \<lparr>Buffer = 1, IPVersion = 4, IPProto = 0x11, Src = [10, 0, 0, 1], Dst = [10, 0, 0, 2]\<rparr>
   = Inr (None, \<lparr>cells = (\<lambda>_. [])(0 := udp4_example, 1 := take 19 udp4_example), brk = 2\<rparr>)
   \<and> rxChecksumOffload \<lparr>cells = (\<lambda>_. [])(0 := udp4_example, 1 := take 19 udp4_example), brk = 2\<rparr>
     \<lparr>Buffer = 1, IPVersion = 6, IPProto = 0x11, Src = [], Dst = []\<rparr>
   = Inr (None, \<lparr>cells = (\<lambda>_. [])(0 := udp4_example, 1 := take 19 udp4_example), brk = 2\<rparr>)"
proof -
  let ?m = "\<lparr>cells = (\<lambda>_. [])(0 := udp4_example, 1 := take 19 udp4_example), brk = 2\<rparr>"
  let ?p0 = "\<lparr>Buffer = 0, IPVersion = 4, IPProto = 0x11, Src = [10, 0, 0, 1], Dst = [10, 0, 0, 2]\<rparr>"
  let ?p1 = "\<lparr>Buffer = 1, IPVersion = 4, IPProto = 0x11, Src = [10, 0, 0, 1], Dst = [10, 0, 0, 2]\<rparr>"
  let ?p2 = "\<lparr>Buffer = 1, IPVersion = 6, IPProto = 0x11, Src = [], Dst = []\<rparr>"
  have len: "length udp4_example = 28"
    by (simp add: udp4_example_def)
  have v: "rxChecksumOffload ?m ?p0
      = Inr (Some \<lparr>Payload = 2, NetworkProtocolNumber = 0x0800, RXChecksumValidated = True\<rparr>,
          \<lparr>cells = (\<lambda>_. [])(0 := udp4_example, 1 := take 19 udp4_example, 2 := udp4_example),
           brk = 3\<rparr>)"
    using udp4_example_valid [of 0]
    by (simp add: rxChecksumOffload_eq Validate_spec_def spec_protocol_number_def
        header_IPv4ProtocolNumber_def)
  show ?thesis
    using rxChecksumOffload_total_private_copy [of ?m ?p0]
      rxChecksumOffload_total_private_copy [of ?m ?p1]
      rxChecksumOffload_total_private_copy [of ?m ?p2] v len
    by simp
qed

text \<open>
  C9. When the IP version is neither 4 nor 6 the switch checks nothing: for every
  buffer it leaves the protocol number 0 and the checksum start 0. If the transport
  protocol is neither TCP nor UDP the packet is accepted, with network-protocol number
  0 and the checksum-validated mark; otherwise the only check is the transport checksum
  over the whole buffer.
\<close>

theorem rxChecksumOffload_other_version:
  "IPVersion p \<noteq> 4 \<and> IPVersion p \<noteq> 6 \<longrightarrow>
     rxChecksumOffload_switch buf (IPVersion p) = Inr (Some (0, 0))
     \<and> (IPProto p \<noteq> ipproto_TCP \<and> IPProto p \<noteq> ipproto_UDP \<longrightarrow>
          rxChecksumOffload m p =
            Inr (Some \<lparr>Payload = brk m, NetworkProtocolNumber = 0, RXChecksumValidated = True\<rparr>,
                 m\<lparr>cells := (cells m)(brk m := cells m (Buffer p)), brk := brk m + 1\<rparr>))
     \<and> rxChecksumOffload m p =
          (if (IPProto p = ipproto_TCP \<or> IPProto p = ipproto_UDP)
              \<and> NOT (Checksum (cells m (Buffer p))
                    (PseudoHeaderChecksum (IPProto p) (Src p) (Dst p)
                       (word_of_nat (length (cells m (Buffer p)))))) \<noteq> 0
           then Inr (None, m)
           else Inr (Some \<lparr>Payload = brk m, NetworkProtocolNumber = 0, RXChecksumValidated = True\<rparr>,
                 m\<lparr>cells := (cells m)(brk m := cells m (Buffer p)), brk := brk m + 1\<rparr>))"
  by (auto simp: rxChecksumOffload_eq rxChecksumOffload_switch_def spec_protocol_number_def
      spec_transport_ok_def spec_transport_start_def)

theorem rxChecksumOffload_other_version_witness:
  "rxChecksumOffload \<lparr>cells = (\<lambda>_. [])(0 := [0x05, 0x00]), brk = 1\<rparr>
     \<lparr>Buffer = 0, IPVersion = 0, IPProto = 0x01, Src = [], Dst = []\<rparr>
   = Inr (Some \<lparr>Payload = 1, NetworkProtocolNumber = 0, RXChecksumValidated = True\<rparr>,
          \<lparr>cells = (\<lambda>_. [])(0 := [0x05, 0x00], 1 := [0x05, 0x00]), brk = 2\<rparr>)
   \<and> rxChecksumOffload_switch [0x05, 0x00] 0 = Inr (Some (0, 0))"
  using rxChecksumOffload_other_version
      [of "\<lparr>Buffer = 0, IPVersion = 0, IPProto = 0x01, Src = [], Dst = []\<rparr>" "[0x05, 0x00]"
        "\<lparr>cells = (\<lambda>_. [])(0 := [0x05, 0x00]), brk = 1\<rparr>"]
  by (simp add: ipproto_TCP_def ipproto_UDP_def)

end
